theory Spec2Isabelle
  imports Main "HOL-Library.Word" "HOL-Library.AList"
begin

section \<open>Python values used by the WISP sources\<close>

text \<open>
  A Python \<open>str\<close> is a sequence of Unicode code points and a \<open>bytes\<close> object a sequence
  of octets.  \<open>str.encode()\<close> and \<open>bytes.decode()\<close> use UTF-8 and raise on what UTF-8
  cannot represent; both are written out below, so that the length of a frame is the
  length the wire sees.
\<close>

type_synonym str = "nat list"
type_synonym byte = "8 word"
type_synonym bytes = "byte list"

definition lit :: "string \<Rightarrow> str" where
  "lit s = map of_char s"

definition blit :: "string \<Rightarrow> bytes" where
  "blit s = map of_char s"

datatype exn =
  UnicodeEncodeError | UnicodeDecodeError | StructError | KeyError | ValueError
  | TypeError | TooShort

text \<open>
  What ends a call early: an exception (caught by \<open>except Exception\<close>), \<open>sys.exit(n)\<close>
  (a \<open>SystemExit\<close>, which \<open>except Exception\<close> does not catch and which ends the thread
  that raised it), or \<open>os._exit(n)\<close>, which ends the whole process.
\<close>

datatype raised = Exception exn | SystemExit nat | OsExit nat

definition sbind :: "'e + 'a \<Rightarrow> ('a \<Rightarrow> 'e + 'b) \<Rightarrow> 'e + 'b" where
  "sbind m f = (case m of Inl e \<Rightarrow> Inl e | Inr x \<Rightarrow> f x)"

subsection \<open>UTF-8\<close>

definition encode_char :: "nat \<Rightarrow> exn + bytes" where
  "encode_char c =
     (if c < 128 then Inr [of_nat c]
      else if c < 2048 then Inr [of_nat (192 + c div 64), of_nat (128 + c mod 64)]
      else if 55296 \<le> c \<and> c < 57344 then Inl UnicodeEncodeError
      else if c < 65536 then
        Inr [of_nat (224 + c div 4096), of_nat (128 + c div 64 mod 64), of_nat (128 + c mod 64)]
      else if c < 1114112 then
        Inr [of_nat (240 + c div 262144), of_nat (128 + c div 4096 mod 64),
             of_nat (128 + c div 64 mod 64), of_nat (128 + c mod 64)]
      else Inl UnicodeEncodeError)"

fun encode :: "str \<Rightarrow> exn + bytes" where
  "encode [] = Inr []"
| "encode (c # cs) =
     sbind (encode_char c) (\<lambda>b. sbind (encode cs) (\<lambda>bs. Inr (b @ bs)))"

definition cont :: "byte \<Rightarrow> bool" where
  "cont b \<longleftrightarrow> 128 \<le> b \<and> b \<le> 191"

definition second_ok :: "byte \<Rightarrow> byte \<Rightarrow> bool" where
  "second_ok b b1 =
     (if b = 224 then 160 \<le> b1 \<and> b1 \<le> 191
      else if b = 237 then 128 \<le> b1 \<and> b1 \<le> 159
      else if b = 240 then 144 \<le> b1 \<and> b1 \<le> 191
      else if b = 244 then 128 \<le> b1 \<and> b1 \<le> 143
      else cont b1)"

definition push :: "nat \<Rightarrow> exn + str \<Rightarrow> exn + str" where
  "push c r = (case r of Inl e \<Rightarrow> Inl e | Inr s \<Rightarrow> Inr (c # s))"

fun decode :: "bytes \<Rightarrow> exn + str" where
  "decode [] = Inr []"
| "decode (b # bs) =
     (if b < 128 then push (unat b) (decode bs)
      else if 194 \<le> b \<and> b \<le> 223 then
        (case bs of
           b1 # r \<Rightarrow>
             if cont b1
             then push ((unat b - 192) * 64 + (unat b1 - 128)) (decode r)
             else Inl UnicodeDecodeError
         | _ \<Rightarrow> Inl UnicodeDecodeError)
      else if 224 \<le> b \<and> b \<le> 239 then
        (case bs of
           b1 # b2 # r \<Rightarrow>
             if second_ok b b1 \<and> cont b2
             then push ((unat b - 224) * 4096 + (unat b1 - 128) * 64 + (unat b2 - 128))
                    (decode r)
             else Inl UnicodeDecodeError
         | _ \<Rightarrow> Inl UnicodeDecodeError)
      else if 240 \<le> b \<and> b \<le> 244 then
        (case bs of
           b1 # b2 # b3 # r \<Rightarrow>
             if second_ok b b1 \<and> cont b2 \<and> cont b3
             then push ((unat b - 240) * 262144 + (unat b1 - 128) * 4096
                        + (unat b2 - 128) * 64 + (unat b3 - 128)) (decode r)
             else Inl UnicodeDecodeError
         | _ \<Rightarrow> Inl UnicodeDecodeError)
      else Inl UnicodeDecodeError)"

subsection \<open>struct.pack and struct.unpack with format \<open><I\<close>\<close>

definition pack_I :: "nat \<Rightarrow> exn + bytes" where
  "pack_I n =
     (if n < 4294967296
      then Inr [of_nat n, of_nat (n div 256), of_nat (n div 65536), of_nat (n div 16777216)]
      else Inl StructError)"

definition unpack_I :: "bytes \<Rightarrow> exn + nat" where
  "unpack_I bs =
     (case bs of
        [a, b, c, d] \<Rightarrow> Inr (unat a + 256 * unat b + 65536 * unat c + 16777216 * unat d)
      | _ \<Rightarrow> Inl StructError)"

subsection \<open>Sockets\<close>

text \<open>
  The bytes a connection will deliver, in the pieces in which they arrive.  \<open>recv n\<close>
  returns at most \<open>n\<close> bytes of the first piece and leaves the rest of it for the next
  call; on a connection the peer has closed it returns \<open>b''\<close>.
\<close>

type_synonym socket = "bytes list"

fun recv :: "nat \<Rightarrow> socket \<Rightarrow> bytes \<times> socket" where
  "recv n [] = ([], [])"
| "recv n (c # cs) = (take n c, if n < length c then drop n c # cs else cs)"

section \<open>wisp\_common.py\<close>

definition WISP_ARP_REQ :: bytes where
  "WISP_ARP_REQ = blit ''Is anyone there?''"

definition WISP_ARP_RES :: bytes where
  "WISP_ARP_RES = blit ''WISPRES:''"

datatype State = Listening | Authentication | Command | Conversation

text \<open>
  A \<open>WispRequest\<close> object keeps the arguments it is given.  The server builds it from
  the decoded fields, which are strings (\<open>str WispRequest\<close>); the client builds it with
  \<open>WispRequest(cmd, arg1, arg2)\<close> where either argument defaults to \<open>None\<close>
  (\<open>str option WispRequest\<close>).
\<close>

record 'a WispRequest =
  cmd :: str
  arg1 :: 'a
  arg2 :: 'a

definition VERSION :: str where "VERSION = lit ''VERS''"
definition AUTH :: str where "AUTH = lit ''USPS''"
definition ADD :: str where "ADD = lit ''ADDU''"
definition DEL :: str where "DEL = lit ''DELU''"
definition LIST :: str where "LIST = lit ''LIST''"
definition SEARCH :: str where "SEARCH = lit ''SRCH''"
definition CONV :: str where "CONV = lit ''CONV''"
definition QUIT :: str where "QUIT = lit ''QUIT''"

definition valid :: "str \<Rightarrow> bool" where
  "valid v \<longleftrightarrow> v \<in> set [VERSION, AUTH, ADD, DEL, LIST, SEARCH, CONV, QUIT]"

record WispResponse =
  code :: str
  count :: nat
  data :: "str list"

definition OK :: str where "OK = lit ''OK''"
definition ERROR :: str where "ERROR = lit ''ER''"

definition WispResponse_init :: "str \<Rightarrow> str list \<Rightarrow> WispResponse" where
  "WispResponse_init c d = \<lparr>code = c, count = length d, data = d\<rparr>"

record WispMessage =
  time :: nat
  text' :: str

text \<open>
  \<open>WispMessage(text, timestamp=None)\<close> stores \<open>timestamp or int(time.time())\<close>: a
  timestamp that is \<open>None\<close> or \<open>0\<close> is replaced by the clock, passed here as \<open>now\<close>.
\<close>

definition WispMessage_init :: "str \<Rightarrow> nat option \<Rightarrow> nat \<Rightarrow> WispMessage" where
  "WispMessage_init t timestamp now =
     \<lparr>time = (case timestamp of None \<Rightarrow> now | Some n \<Rightarrow> if n = 0 then now else n),
      text' = t\<rparr>"

text \<open>\<open>STATE_MAP\<close> has no entry for \<open>Conversation\<close>: indexing it there raises.\<close>

definition STATE_MAP :: "State \<Rightarrow> exn + str list" where
  "STATE_MAP s =
     (case s of
        Listening \<Rightarrow> Inr [VERSION]
      | Authentication \<Rightarrow> Inr [AUTH]
      | Command \<Rightarrow> Inr [ADD, DEL, LIST, SEARCH, CONV, QUIT]
      | Conversation \<Rightarrow> Inl KeyError)"

definition ljust :: "nat \<Rightarrow> str \<Rightarrow> str" where
  "ljust w s = s @ replicate (w - length s) 32"

text \<open>
  \<open>fstring\<close> is the text an f-string puts for an argument: the string itself, and
  \<open>None\<close> for the value \<open>None\<close>.
\<close>

definition fstring :: "str option \<Rightarrow> str" where
  "fstring a = (case a of None \<Rightarrow> lit ''None'' | Some s \<Rightarrow> s)"

definition build_req :: "str \<Rightarrow> str option \<Rightarrow> str option \<Rightarrow> exn + bytes" where
  "build_req c a1 a2 =
     (let one = ljust 16 (fstring a1 @ [0]);
          two = ljust 16 (fstring a2 @ [0])
      in encode (c @ one @ two))"

fun build_fields :: "bytes \<Rightarrow> str list \<Rightarrow> exn + bytes" where
  "build_fields header [] = Inr header"
| "build_fields header (a # as) =
     sbind (encode (ljust 16 (a @ [0]))) (\<lambda>f. build_fields (header @ f) as)"

definition build_res :: "str \<Rightarrow> nat \<Rightarrow> str list \<Rightarrow> exn + bytes" where
  "build_res c n args =
     sbind (encode c) (\<lambda>cb. sbind (pack_I n) (\<lambda>nb. build_fields (cb @ nb) args))"

definition build_msg :: "nat \<Rightarrow> str \<Rightarrow> exn + bytes" where
  "build_msg timestamp buf =
     sbind (pack_I timestamp) (\<lambda>tb. sbind (encode (ljust 128 (buf @ [0]))) (\<lambda>b. Inr (tb @ b)))"

fun parse_pkt_field :: "str \<Rightarrow> str" where
  "parse_pkt_field [] = []"
| "parse_pkt_field (c # cs) = (if c = 0 then [] else c # parse_pkt_field cs)"

text \<open>
  \<open>parse_message\<close> catches every exception of its body and returns \<open>None\<close>; the caller
  ends the thread (server) or the process (client) on \<open>None\<close>.
\<close>

definition parse_message :: "socket \<Rightarrow> nat \<Rightarrow> WispMessage option \<times> socket" where
  "parse_message sock now =
     (let (msg, sock') = recv 132 sock
      in (if length msg < 132 then None
          else (case unpack_I (take 4 msg) of
                  Inl e \<Rightarrow> None
                | Inr timestamp \<Rightarrow>
                    (case decode (drop 4 msg) of
                       Inl e \<Rightarrow> None
                     | Inr s \<Rightarrow> Some (WispMessage_init (parse_pkt_field s) (Some timestamp) now))),
          sock'))"

section \<open>wisp\_client.py: decoding a response\<close>

fun recv_fields :: "nat \<Rightarrow> str list \<Rightarrow> socket \<Rightarrow> (exn + str list) \<times> socket" where
  "recv_fields 0 d sock = (Inr d, sock)"
| "recv_fields (Suc n) d sock =
     (let (f, sock') = recv 16 sock
      in (case decode f of
            Inl e \<Rightarrow> (Inl e, sock')
          | Inr s \<Rightarrow> recv_fields n (d @ [parse_pkt_field s]) sock'))"

text \<open>
  \<open>WispClient._parse_response\<close>: every exception of the body ends the process with
  \<open>os._exit(1)\<close>.  Only the header's length is tested; the \<open>recv(16)\<close> of a field is
  decoded whatever its length.
\<close>

definition WispClient_parse_response :: "socket \<Rightarrow> (raised + WispResponse) \<times> socket" where
  "WispClient_parse_response sock =
     (let (header, sock') = recv 6 sock
      in if length header < 6 then (Inl (OsExit 1), sock')
         else (case decode (take 2 header) of
                 Inl e \<Rightarrow> (Inl (OsExit 1), sock')
               | Inr c \<Rightarrow>
                   (let code = (if c = OK then OK else ERROR)
                    in (case unpack_I (take 4 (drop 2 header)) of
                          Inl e \<Rightarrow> (Inl (OsExit 1), sock')
                        | Inr len \<Rightarrow>
                            (case recv_fields len [] sock' of
                               (Inl e, sock'') \<Rightarrow> (Inl (OsExit 1), sock'')
                             | (Inr d, sock'') \<Rightarrow> (Inr (WispResponse_init code d), sock''))))))"

section \<open>wisp\_server.py: decoding a request\<close>

definition WispServer_handle_quit :: "raised + 'a" where
  "WispServer_handle_quit = Inl (SystemExit 0)"

text \<open>
  \<open>WispServer._recv\<close>: on a read of another length the error message is built first,
  and its f-string applies \<open>len\<close> to the integer \<open>size\<close>, which raises \<open>TypeError\<close>;
  the call of \<open>_handle_quit\<close> after it is not reached.
\<close>

definition WispServer_recv :: "nat \<Rightarrow> socket \<Rightarrow> (raised + bytes) \<times> socket" where
  "WispServer_recv sz sock =
     (let (msg, sock') = recv sz sock
      in (if length msg \<noteq> sz then Inl (Exception TypeError) else Inr msg, sock'))"

definition WispServer_parse_request ::
  "socket \<Rightarrow> (raised + str WispRequest) \<times> socket" where
  "WispServer_parse_request sock =
     (case WispServer_recv 36 sock of
        (Inl r, sock') \<Rightarrow> (Inl r, sock')
      | (Inr packet, sock') \<Rightarrow>
          (case decode (take 4 packet) of
             Inl e \<Rightarrow> Inl (Exception e)
           | Inr c \<Rightarrow>
               if valid c
               then (case decode (take 16 (drop 4 packet)) of
                       Inl e \<Rightarrow> Inl (Exception e)
                     | Inr a1 \<Rightarrow>
                         (case decode (drop 20 packet) of
                            Inl e \<Rightarrow> Inl (Exception e)
                          | Inr a2 \<Rightarrow>
                              Inr \<lparr>cmd = c, arg1 = parse_pkt_field a1,
                                   arg2 = parse_pkt_field a2\<rparr>))
               else WispServer_handle_quit,
           sock'))"

section \<open>server.py: the store and the command callbacks\<close>

record account =
  password :: str
  friends :: "str list"

text \<open>
  \<open>DATASTORE\<close> is a dict whose keys are never added or removed: an association list in
  the dict's order, read with \<open>map_of\<close> and written in place with \<open>AList.update\<close>.
\<close>

type_synonym datastore = "(str \<times> account) list"

definition DATASTORE0 :: datastore where
  "DATASTORE0 =
     [(lit ''andrei'', \<lparr>password = lit ''dorin'',
         friends = [lit ''safa'', lit ''cameron'', lit ''kenny'', lit ''colbert'']\<rparr>),
      (lit ''cameron'', \<lparr>password = lit ''graybill'', friends = [lit ''andrei'']\<rparr>),
      (lit ''safa'', \<lparr>password = lit ''aman'', friends = [lit ''andrei'']\<rparr>),
      (lit ''michael'', \<lparr>password = lit ''kain'', friends = []\<rparr>),
      (lit ''kenny'', \<lparr>password = lit ''li'', friends = [lit ''andrei'']\<rparr>),
      (lit ''colbert'', \<lparr>password = lit ''zhu'', friends = [lit ''andrei'']\<rparr>)]"

text \<open>
  A session's \<open>user\<close> is \<open>None\<close> until it has authenticated, so the callbacks that take
  it receive a \<open>str option\<close>; \<open>None\<close> is no key of the store.
\<close>

definition lookup :: "datastore \<Rightarrow> str option \<Rightarrow> account option" where
  "lookup D k = (case k of None \<Rightarrow> None | Some u \<Rightarrow> map_of D u)"

text \<open>\<open>DATASTORE[k]['friends'].append(x)\<close> and \<open>DATASTORE[k]['friends'].remove(x)\<close>.\<close>

definition friends_append :: "datastore \<Rightarrow> str \<Rightarrow> str \<Rightarrow> exn + datastore" where
  "friends_append D k x =
     (case map_of D k of
        None \<Rightarrow> Inl KeyError
      | Some acc \<Rightarrow> Inr (AList.update k (acc\<lparr>friends := friends acc @ [x]\<rparr>) D))"

definition friends_remove :: "datastore \<Rightarrow> str \<Rightarrow> str \<Rightarrow> exn + datastore" where
  "friends_remove D k x =
     (case map_of D k of
        None \<Rightarrow> Inl KeyError
      | Some acc \<Rightarrow>
          if x \<in> set (friends acc)
          then Inr (AList.update k (acc\<lparr>friends := remove1 x (friends acc)\<rparr>) D)
          else Inl ValueError)"

definition Server_handle_auth :: "datastore \<Rightarrow> str \<Rightarrow> str \<Rightarrow> bool \<times> str list" where
  "Server_handle_auth D username pw =
     (case map_of D username of
        Some acc \<Rightarrow>
          if password acc = pw then (True, []) else (False, [lit ''Invalid Cred''])
      | None \<Rightarrow> (False, [lit ''Invalid Cred'']))"

definition Server_handle_list :: "datastore \<Rightarrow> str option \<Rightarrow> bool \<times> str list" where
  "Server_handle_list D username =
     (case lookup D username of
        None \<Rightarrow> (False, [lit ''Invalid user''])
      | Some acc \<Rightarrow> (True, friends acc))"

fun startswith :: "str \<Rightarrow> str \<Rightarrow> bool" where
  "startswith s [] = True"
| "startswith [] (p # ps) = False"
| "startswith (c # cs) (p # ps) = (c = p \<and> startswith cs ps)"

text \<open>\<open>contains s sub\<close> is Python's \<open>sub in s\<close> on strings.\<close>

fun contains :: "str \<Rightarrow> str \<Rightarrow> bool" where
  "contains [] sub = (sub = [])"
| "contains (c # cs) sub = (startswith (c # cs) sub \<or> contains cs sub)"

fun search_loop ::
  "datastore \<Rightarrow> str option \<Rightarrow> str \<Rightarrow> str list \<Rightarrow> str list \<Rightarrow> exn + str list" where
  "search_loop D owner needle [] user_list = Inr user_list"
| "search_loop D owner needle (u # us) user_list =
     (if Some u \<noteq> owner \<and> contains u needle
      then (case lookup D owner of
              None \<Rightarrow> Inl KeyError
            | Some acc \<Rightarrow>
                if u \<notin> set (friends acc)
                then search_loop D owner needle us (user_list @ [u])
                else search_loop D owner needle us user_list)
      else search_loop D owner needle us user_list)"

definition Server_handle_search ::
  "datastore \<Rightarrow> str option \<Rightarrow> str \<Rightarrow> exn + bool \<times> str list" where
  "Server_handle_search D owner needle =
     sbind (search_loop D owner needle (map fst D) []) (\<lambda>user_list. Inr (True, user_list))"

text \<open>
  The callbacks that write the store return it as it is when they return or raise:
  an exception in the middle of \<open>_handle_del\<close> leaves the first removal done.
\<close>

definition Server_handle_add ::
  "datastore \<Rightarrow> str option \<Rightarrow> str \<Rightarrow> datastore \<times> (exn + bool \<times> str list)" where
  "Server_handle_add D owner usr =
     (if lookup D owner = None \<or> map_of D usr = None
      then (D, Inr (False, [lit ''Invalid User'']))
      else (case owner of
              None \<Rightarrow> (D, Inl KeyError)
            | Some ow \<Rightarrow>
                (case friends_append D ow usr of
                   Inl e \<Rightarrow> (D, Inl e)
                 | Inr D1 \<Rightarrow>
                     (case friends_append D1 usr ow of
                        Inl e \<Rightarrow> (D1, Inl e)
                      | Inr D2 \<Rightarrow> (D2, Inr (True, []))))))"

definition Server_handle_del ::
  "datastore \<Rightarrow> str option \<Rightarrow> str \<Rightarrow> datastore \<times> (exn + bool \<times> str list)" where
  "Server_handle_del D owner usr =
     (case lookup D owner of
        None \<Rightarrow> (D, Inr (False, [lit ''Invalid Users'']))
      | Some acc \<Rightarrow>
          if usr \<notin> set (friends acc) then (D, Inr (False, [lit ''Invalid Users'']))
          else (case owner of
                  None \<Rightarrow> (D, Inl KeyError)
                | Some ow \<Rightarrow>
                    (case friends_remove D ow usr of
                       Inl e \<Rightarrow> (D, Inl e)
                     | Inr D1 \<Rightarrow>
                         (case friends_remove D1 usr ow of
                            Inl e \<Rightarrow> (D1, Inl e)
                          | Inr D2 \<Rightarrow> (D2, Inr (True, []))))))"

section \<open>The sessions and the registry\<close>

text \<open>
  A \<open>WispServer\<close> object: the fields its thread and the registry read and write.
  \<open>is_alive\<close> is the thread's \<open>is_alive()\<close>.
\<close>

record WispServer =
  user :: "str option"
  target :: "str option"
  msgq :: "WispMessage list"
  auth_counter :: nat
  state :: State
  is_alive :: bool

text \<open>
  The server: the store, the registry \<open>_sessions\<close> (a list of references to session
  objects) and the objects themselves, by reference.
\<close>

record Server =
  DATASTORE :: datastore
  sessions :: "nat list"
  object :: "nat \<Rightarrow> WispServer"

definition check_msg_state :: "WispServer \<Rightarrow> bool" where
  "check_msg_state s = (if state s = Conversation then True else False)"

fun find_user :: "(nat \<Rightarrow> WispServer) \<Rightarrow> nat list \<Rightarrow> str \<Rightarrow> bool" where
  "find_user obj [] tgt = False"
| "find_user obj (conn # conns) tgt =
     (if user (obj conn) = Some tgt then True else find_user obj conns tgt)"

definition Server_handle_conv ::
  "Server \<Rightarrow> str option \<Rightarrow> str \<Rightarrow> exn + bool \<times> str list" where
  "Server_handle_conv srv owner tgt =
     (case lookup (DATASTORE srv) owner of
        None \<Rightarrow> Inl KeyError
      | Some acc \<Rightarrow>
          if tgt \<notin> set (friends acc) then Inr (False, [lit ''Friend Unknown''])
          else if find_user (object srv) (sessions srv) tgt then Inr (True, [])
          else Inr (False, [lit ''User offline'']))"

text \<open>
  \<open>Server._handle_message\<close>: the loop \<open>for i in range(len(self._sessions) - 1, -1, -1)\<close>.
  \<open>route (Suc i)\<close> runs the body at index \<open>i\<close> and then the indices below it; a deletion
  at index \<open>i\<close> leaves the entries below \<open>i\<close> in place, so every index read is in range.
\<close>

fun route :: "nat \<Rightarrow> str option \<Rightarrow> WispMessage \<Rightarrow> Server \<Rightarrow> Server" where
  "route 0 receiver msg srv = srv"
| "route (Suc i) receiver msg srv =
     (let ref = sessions srv ! i;
          connection = object srv ref
      in if \<not> is_alive connection
         then route i receiver msg
                (srv\<lparr>sessions := take i (sessions srv) @ drop (Suc i) (sessions srv)\<rparr>)
         else if user connection = receiver \<and> check_msg_state connection
         then route i receiver msg
                (srv\<lparr>object := (object srv)
                   (ref := connection\<lparr>msgq := msgq connection @ [msg]\<rparr>)\<rparr>)
         else route i receiver msg srv)"

definition Server_handle_message :: "str option \<Rightarrow> WispMessage \<Rightarrow> Server \<Rightarrow> Server" where
  "Server_handle_message receiver msg srv = route (length (sessions srv)) receiver msg srv"

section \<open>wisp\_server.py: the session thread\<close>

definition set_object :: "Server \<Rightarrow> nat \<Rightarrow> WispServer \<Rightarrow> Server" where
  "set_object srv a s = srv\<lparr>object := (object srv)(a := s)\<rparr>"

definition lift_exn :: "exn + 'a \<Rightarrow> raised + 'a" where
  "lift_exn r = (case r of Inl e \<Rightarrow> Inl (Exception e) | Inr x \<Rightarrow> Inr x)"

definition WispServer_send_res :: "str \<Rightarrow> str list \<Rightarrow> exn + bytes" where
  "WispServer_send_res status d = build_res status (length d) d"

definition WispServer_handle_auth ::
  "Server \<Rightarrow> nat \<Rightarrow> str \<Rightarrow> str \<Rightarrow> Server \<times> (raised + bool \<times> str list)" where
  "WispServer_handle_auth srv a username pw =
     (let (outcome, d) = Server_handle_auth (DATASTORE srv) username pw;
          self = object srv a
      in if outcome
         then (set_object srv a (self\<lparr>state := Command, user := Some username\<rparr>),
               Inr (outcome, d))
         else (let self' = self\<lparr>auth_counter := auth_counter self + 1\<rparr>
               in if auth_counter self' > 5
                  then (set_object srv a self', Inl (SystemExit 1))
                  else (set_object srv a self', Inr (outcome, d))))"

definition WispServer_handle_conv ::
  "Server \<Rightarrow> nat \<Rightarrow> str \<Rightarrow> str \<Rightarrow> Server \<times> (raised + bool \<times> str list)" where
  "WispServer_handle_conv srv a tgt unused =
     (case Server_handle_conv srv (user (object srv a)) tgt of
        Inl e \<Rightarrow> (srv, Inl (Exception e))
      | Inr (outcome, d) \<Rightarrow>
          if outcome
          then (set_object srv a ((object srv a)\<lparr>state := Conversation, target := Some tgt\<rparr>),
                Inr (outcome, d))
          else (srv, Inr (outcome, d)))"

text \<open>
  \<open>self._handlers[c](x, y)\<close>: the table of the constructor.  It has no entry for
  \<open>VERSION\<close>, which the handshake consumes; indexing it there raises \<open>KeyError\<close>.
\<close>

definition handlers ::
  "Server \<Rightarrow> nat \<Rightarrow> str \<Rightarrow> str \<Rightarrow> str \<Rightarrow> Server \<times> (raised + bool \<times> str list)" where
  "handlers srv a c x y =
     (if c = AUTH then WispServer_handle_auth srv a x y
      else if c = LIST
      then (srv, Inr (Server_handle_list (DATASTORE srv) (user (object srv a))))
      else if c = SEARCH
      then (srv, lift_exn (Server_handle_search (DATASTORE srv) (user (object srv a)) x))
      else if c = ADD
      then (case Server_handle_add (DATASTORE srv) (user (object srv a)) x of
              (D, r) \<Rightarrow> (srv\<lparr>DATASTORE := D\<rparr>, lift_exn r))
      else if c = DEL
      then (case Server_handle_del (DATASTORE srv) (user (object srv a)) x of
              (D, r) \<Rightarrow> (srv\<lparr>DATASTORE := D\<rparr>, lift_exn r))
      else if c = QUIT then (srv, WispServer_handle_quit)
      else if c = CONV then WispServer_handle_conv srv a x y
      else (srv, Inl (Exception KeyError)))"

text \<open>
  One pass of the body of \<open>run\<close> gives the server afterwards, the frames sent on the
  connection and what was raised, if anything.  \<open>dispatch\<close> is the call of the handler
  and the response that follows it; \<open>run_request\<close> is the test against \<open>STATE_MAP\<close>
  around it, which has no \<open>else\<close> branch.
\<close>

definition dispatch ::
  "Server \<Rightarrow> nat \<Rightarrow> str WispRequest \<Rightarrow> Server \<times> bytes list \<times> raised option" where
  "dispatch srv a req =
     (case handlers srv a (cmd req) (arg1 req) (arg2 req) of
        (srv', Inl r) \<Rightarrow> (srv', [], Some r)
      | (srv', Inr (outcome, d)) \<Rightarrow>
          (case WispServer_send_res (if outcome then OK else ERROR) d of
             Inl e \<Rightarrow> (srv', [], Some (Exception e))
           | Inr b \<Rightarrow> (srv', [b], None)))"

definition run_request ::
  "Server \<Rightarrow> nat \<Rightarrow> str WispRequest \<Rightarrow> Server \<times> bytes list \<times> raised option" where
  "run_request srv a req =
     (case STATE_MAP (state (object srv a)) of
        Inl e \<Rightarrow> (srv, [], Some (Exception e))
      | Inr legal \<Rightarrow>
          if cmd req \<in> set legal then dispatch srv a req else (srv, [], None))"

definition drain :: "Server \<Rightarrow> nat \<Rightarrow> Server \<times> bytes list \<times> raised option" where
  "drain srv a =
     (case msgq (object srv a) of
        [] \<Rightarrow> (srv, [], None)
      | msg # q \<Rightarrow>
          (let srv' = set_object srv a ((object srv a)\<lparr>msgq := q\<rparr>)
           in (case build_msg (time msg) (text' msg) of
                 Inl e \<Rightarrow> (srv', [], Some (Exception e))
               | Inr b \<Rightarrow> (srv', [b], None))))"

text \<open>
  What the conversation branch does with a message it has read: an empty text leaves
  the conversation, any other text is routed to \<open>self.target\<close>; the session's own
  queue is polled after either.
\<close>

definition on_message ::
  "Server \<Rightarrow> nat \<Rightarrow> WispMessage \<Rightarrow> Server \<times> bytes list \<times> raised option" where
  "on_message srv a msg =
     (if text' msg = []
      then drain (set_object srv a ((object srv a)\<lparr>state := Command\<rparr>)) a
      else drain (Server_handle_message (target (object srv a)) msg srv) a)"

text \<open>
  \<open>readable\<close> is the answer of \<open>select\<close> in the conversation branch; \<open>now\<close> is the clock.
\<close>

definition run_body ::
  "Server \<Rightarrow> nat \<Rightarrow> socket \<Rightarrow> bool \<Rightarrow> nat
     \<Rightarrow> (Server \<times> bytes list \<times> raised option) \<times> socket" where
  "run_body srv a sock readable now =
     (if state (object srv a) = Conversation
      then (if readable
            then (case parse_message sock now of
                    (None, sock') \<Rightarrow> ((srv, [], Some (SystemExit 1)), sock')
                  | (Some msg, sock') \<Rightarrow> (on_message srv a msg, sock'))
            else (drain srv a, sock))
      else (case WispServer_parse_request sock of
              (Inl r, sock') \<Rightarrow> ((srv, [], Some r), sock')
            | (Inr req, sock') \<Rightarrow> (run_request srv a req, sock')))"

datatype status = Running | Exited nat

text \<open>
  One iteration of the loop of \<open>run\<close>.  An exception is caught, the connection closed
  and the thread left with \<open>sys.exit(1)\<close>; a \<open>SystemExit\<close> from inside the body ends the
  thread with its own code.  A thread that has ended is no longer alive.
\<close>

definition exit_code :: "raised \<Rightarrow> nat" where
  "exit_code r = (case r of Exception e \<Rightarrow> 1 | SystemExit n \<Rightarrow> n | OsExit n \<Rightarrow> n)"

definition run ::
  "Server \<Rightarrow> nat \<Rightarrow> socket \<Rightarrow> bool \<Rightarrow> nat \<Rightarrow> status \<times> Server \<times> bytes list \<times> socket" where
  "run srv a sock readable now =
     (case run_body srv a sock readable now of
        ((srv', sent, None), sock') \<Rightarrow> (Running, srv', sent, sock')
      | ((srv', sent, Some r), sock') \<Rightarrow>
          (Exited (exit_code r),
           set_object srv' a ((object srv' a)\<lparr>is_alive := False\<rparr>), sent, sock'))"

text \<open>
  \<open>_version_handshake\<close>, called by the constructor on the new session before its thread
  exists: the constructor runs in the accept loop of \<open>Server.start\<close>, so whatever the
  handshake raises is raised there and not in a session thread.
\<close>

definition version_handshake ::
  "WispServer \<Rightarrow> socket \<Rightarrow> (WispServer \<times> bytes list \<times> raised option) \<times> socket" where
  "version_handshake self sock =
     (let versions = [lit ''1.1'']
      in (case WispServer_send_res OK versions of
            Inl e \<Rightarrow> ((self, [], Some (Exception e)), sock)
          | Inr b0 \<Rightarrow>
              (case WispServer_parse_request sock of
                 (Inl r, sock') \<Rightarrow> ((self, [b0], Some r), sock')
               | (Inr req, sock') \<Rightarrow>
                   (if cmd req \<noteq> VERSION
                    then (case WispServer_send_res ERROR [lit ''Invalid version response''] of
                            Inl e \<Rightarrow> (self, [b0], Some (Exception e))
                          | Inr b1 \<Rightarrow> (self, [b0, b1], Some (SystemExit 1)))
                    else if arg1 req \<notin> set versions
                    then (case WispServer_send_res ERROR [lit ''Unsupported version''] of
                            Inl e \<Rightarrow> (self, [b0], Some (Exception e))
                          | Inr b1 \<Rightarrow> (self, [b0, b1], Some (SystemExit 1)))
                    else (case WispServer_send_res OK [] of
                            Inl e \<Rightarrow> (self, [b0], Some (Exception e))
                          | Inr b1 \<Rightarrow> (self\<lparr>state := Authentication\<rparr>, [b0, b1], None)),
                    sock'))))"

section \<open>server.py: the discovery responder\<close>

text \<open>
  A datagram socket's \<open>recv(n)\<close> returns the first \<open>n\<close> bytes of the datagram and drops
  the rest of it.  \<open>service_descovery addr datagram\<close> is one pass of the loop: the
  payload it broadcasts, if any; \<open>addr\<close> is the text \<open>getsockname\<close> gave.
\<close>

definition udp_recv :: "nat \<Rightarrow> bytes \<Rightarrow> bytes" where
  "udp_recv n datagram = take n datagram"

definition service_descovery :: "str \<Rightarrow> bytes \<Rightarrow> exn + bytes option" where
  "service_descovery addr datagram =
     (let d = udp_recv (length WISP_ARP_REQ) datagram
      in if d = WISP_ARP_REQ
         then sbind (encode addr) (\<lambda>a. Inr (Some (WISP_ARP_RES @ a)))
         else Inr None)"

section \<open>Notions used to state the properties\<close>

text \<open>The friends list of a user of the store; a name that is no key has none.\<close>

definition friends_of :: "datastore \<Rightarrow> str \<Rightarrow> str list" where
  "friends_of D u = (case map_of D u of None \<Rightarrow> [] | Some acc \<Rightarrow> friends acc)"

definition is_user :: "datastore \<Rightarrow> str \<Rightarrow> bool" where
  "is_user D u \<longleftrightarrow> map_of D u \<noteq> None"

text \<open>
  Friendship symmetry: for all users \<open>u\<close> and \<open>v\<close>, \<open>u\<close> occurs in the friends list of
  \<open>v\<close> as often as \<open>v\<close> occurs in the friends list of \<open>u\<close>.
\<close>

definition symmetric :: "datastore \<Rightarrow> bool" where
  "symmetric D \<longleftrightarrow>
     (\<forall>u v. is_user D u \<longrightarrow> is_user D v \<longrightarrow>
        count_list (friends_of D v) u = count_list (friends_of D u) v)"

text \<open>
  The legal command set of each phase, in the words of the specification: \<open>VERSION\<close> while
  listening, \<open>AUTH\<close> in the authentication phase, the six commands of the command phase,
  and no request command in a conversation.
\<close>

definition legal_set :: "State \<Rightarrow> str set" where
  "legal_set p =
     (case p of
        Listening \<Rightarrow> {VERSION}
      | Authentication \<Rightarrow> {AUTH}
      | Command \<Rightarrow> {ADD, DEL, LIST, SEARCH, CONV, QUIT}
      | Conversation \<Rightarrow> {})"

text \<open>
  A session the routing loop puts a message on: its thread is alive, its user is the
  receiver and it is in a conversation.  \<open>put\<close> is \<open>msgq.put\<close>.
\<close>

definition deliverable :: "str option \<Rightarrow> WispServer \<Rightarrow> bool" where
  "deliverable receiver c \<longleftrightarrow> is_alive c \<and> user c = receiver \<and> state c = Conversation"

definition put :: "WispMessage \<Rightarrow> WispServer \<Rightarrow> WispServer" where
  "put msg c = c\<lparr>msgq := msgq c @ [msg]\<rparr>"

text \<open>No registered session of the receiver is in a conversation.\<close>

definition none_conversing :: "Server \<Rightarrow> str option \<Rightarrow> bool" where
  "none_conversing srv receiver \<longleftrightarrow>
     list_all (\<lambda>b. \<not> (user (object srv b) = receiver \<and> state (object srv b) = Conversation))
       (sessions srv)"

text \<open>Text of ASCII characters only: one byte per character on the wire.\<close>

definition ascii :: "str \<Rightarrow> bool" where
  "ascii s \<longleftrightarrow> list_all (\<lambda>c. c < 128) s"

text \<open>
  The frame of a PDU object, as the client builds it: it calls
  \<open>build_req(req.cmd, req.arg1, req.arg2)\<close> and \<open>build_msg(msg.time, msg.text)\<close>.
\<close>

definition encode_request :: "str option WispRequest \<Rightarrow> exn + bytes" where
  "encode_request p = build_req (cmd p) (arg1 p) (arg2 p)"

definition encode_message :: "WispMessage \<Rightarrow> exn + bytes" where
  "encode_message m = build_msg (time m) (text' m)"

text \<open>The 16-byte fields of a list of ASCII items of at most 15 characters, in a row.\<close>

definition fields :: "str list \<Rightarrow> bytes" where
  "fields ds = concat (map (\<lambda>a. map of_nat (ljust 16 (a @ [0]))) ds)"

text \<open>
  The request branch of the loop of \<open>run\<close> over the requests a session decodes one
  after the other; it stops at the first one that raises.
\<close>

fun run_requests ::
  "Server \<Rightarrow> nat \<Rightarrow> str WispRequest list \<Rightarrow> Server \<times> bytes list \<times> raised option" where
  "run_requests srv a [] = (srv, [], None)"
| "run_requests srv a (req # reqs) =
     (case run_request srv a req of
        (srv', sent, Some r) \<Rightarrow> (srv', sent, Some r)
      | (srv', sent, None) \<Rightarrow>
          (case run_requests srv' a reqs of
             (srv'', sent', r) \<Rightarrow> (srv'', sent @ sent', r)))"

text \<open>An \<open>AUTH\<close> request that the store turns down.\<close>

definition failed_auth :: "datastore \<Rightarrow> str WispRequest \<Rightarrow> bool" where
  "failed_auth D q \<longleftrightarrow> cmd q = AUTH \<and> \<not> fst (Server_handle_auth D (arg1 q) (arg2 q))"

subsection \<open>A server state to evaluate on\<close>

text \<open>
  Seven registered sessions over the store of the source: andrei in a conversation with
  kenny, two sessions of safa in conversations, kenny in the command phase, a session
  of colbert whose thread has ended and has not been reaped, a second session of
  andrei in the command phase, and a session that has just passed the handshake.
\<close>

definition session_of :: "string \<Rightarrow> string option \<Rightarrow> State \<Rightarrow> bool \<Rightarrow> WispServer" where
  "session_of u t st alive =
     \<lparr>user = Some (lit u), target = map_option lit t, msgq = [], auth_counter = 0,
      state = st, is_alive = alive\<rparr>"

definition new_session :: WispServer where
  "new_session =
     \<lparr>user = None, target = None, msgq = [], auth_counter = 0, state = Listening,
      is_alive = False\<rparr>"

definition example_server :: Server where
  "example_server =
     \<lparr>DATASTORE = DATASTORE0,
      sessions = [0, 1, 2, 3, 4, 5, 6],
      object = (\<lambda>a. if a = 0 then session_of ''andrei'' (Some ''kenny'') Conversation True
                    else if a = 1 then session_of ''safa'' (Some ''andrei'') Conversation True
                    else if a = 2 then session_of ''safa'' (Some ''andrei'') Conversation True
                    else if a = 3 then session_of ''kenny'' None Command True
                    else if a = 4 then session_of ''colbert'' None Command False
                    else if a = 5 then session_of ''andrei'' None Command True
                    else if a = 6 then new_session\<lparr>state := Authentication, is_alive := True\<rparr>
                    else new_session)\<rparr>"

definition example_message :: WispMessage where
  "example_message = \<lparr>time = 1528600000, text' = lit ''hi''\<rparr>"

subsection \<open>Frames to evaluate on\<close>

definition sixteen :: str where
  "sixteen = lit ''0123456789abcdef''"

definition frame_sixteen :: bytes where
  "frame_sixteen = blit ''USPS0123456789abcdef'' @ [0] @ blit ''pw'' @ [0] @ blit ''             ''"

text \<open>
  A response \<open>OK\<close> with one item, \<open>safa\<close>, cut after 14 of its 22 bytes: the header
  and the first 8 bytes of the field.
\<close>

definition response_header :: bytes where
  "response_header = blit ''OK'' @ [1, 0, 0, 0]"

definition response_first_piece :: bytes where
  "response_first_piece = response_header @ blit ''safa'' @ [0] @ blit ''   ''"

definition response_second_piece :: bytes where
  "response_second_piece = blit ''        ''"

definition frame_auth :: bytes where
  "frame_auth = blit ''USPSkenny'' @ [0] @ blit ''          li'' @ [0] @ blit ''             ''"

definition frame_unknown :: bytes where
  "frame_unknown = blit ''HELOkenny'' @ [0] @ blit ''          li'' @ [0] @ blit ''             ''"

definition bad_auth :: "str WispRequest" where
  "bad_auth = \<lparr>cmd = AUTH, arg1 = lit ''andrei'', arg2 = lit ''guess''\<rparr>"

text \<open>
  The frames of the handshake: the version list, the empty \<open>OK\<close>, and the two \<open>ERROR\<close>
  responses, whose texts are longer than a field and so are not padded.
\<close>

definition frame_versions :: bytes where
  "frame_versions = blit ''OK'' @ [1, 0, 0, 0] @ blit ''1.1'' @ [0] @ blit ''            ''"

definition frame_ok :: bytes where
  "frame_ok = blit ''OK'' @ [0, 0, 0, 0]"

definition frame_invalid_version :: bytes where
  "frame_invalid_version = blit ''ER'' @ [1, 0, 0, 0] @ blit ''Invalid version response'' @ [0]"

definition frame_unsupported :: bytes where
  "frame_unsupported = blit ''ER'' @ [1, 0, 0, 0] @ blit ''Unsupported version'' @ [0]"

text \<open>The frame of \<open>WispRequest('LIST')\<close>, whose arguments are \<open>None\<close>.\<close>

definition frame_list :: bytes where
  "frame_list = blit ''LISTNone'' @ [0] @ blit ''           None'' @ [0] @ blit ''           ''"

section \<open>The store: ADD and DEL\<close>

lemma friends_append_Inr:
  "friends_append D k x = Inr D' \<Longrightarrow>
     (\<forall>w. is_user D' w = is_user D w) \<and>
     (\<forall>w. friends_of D' w = (if w = k then friends_of D k @ [x] else friends_of D w))"
  by (auto simp: friends_append_def friends_of_def is_user_def update_conv' split: option.splits if_splits)

lemma friends_append_user:
  "is_user D k \<Longrightarrow> \<exists>D'. friends_append D k x = Inr D'"
  by (auto simp: friends_append_def is_user_def split: option.splits)

lemma friends_remove_Inr:
  "friends_remove D k x = Inr D' \<Longrightarrow>
     x \<in> set (friends_of D k) \<and> is_user D k \<and>
     (\<forall>w. is_user D' w = is_user D w) \<and>
     (\<forall>w. friends_of D' w = (if w = k then remove1 x (friends_of D k) else friends_of D w))"
  by (auto simp: friends_remove_def friends_of_def is_user_def update_conv' split: option.splits if_splits)

lemma count_list_remove1:
  "count_list (remove1 x xs) y = (if x = y \<and> x \<in> set xs then count_list xs y - 1 else count_list xs y)"
  by (induction xs) auto

lemma add_cases:
  "Server_handle_add D owner usr = (D', r) \<Longrightarrow>
     D' = D \<or> (\<exists>ow D1. owner = Some ow \<and> friends_append D ow usr = Inr D1 \<and> friends_append D1 usr ow = Inr D')"
proof -
  assume e: "Server_handle_add D owner usr = (D', r)"
  show ?thesis
  proof (cases "lookup D owner = None \<or> map_of D usr = None")
    case True
    with e show ?thesis by (simp add: Server_handle_add_def)
  next
    case False
    then obtain ow where ow: "owner = Some ow" "is_user D ow" "is_user D usr"
      by (auto simp: lookup_def is_user_def split: option.splits)
    from friends_append_user[OF ow(2)] obtain D1 where a: "friends_append D ow usr = Inr D1"
      by blast
    have "is_user D1 usr" using friends_append_Inr[OF a] ow by simp
    from friends_append_user[OF this] obtain D2 where b: "friends_append D1 usr ow = Inr D2"
      by blast
    from e False ow a b have "D' = D2" by (auto simp: Server_handle_add_def)
    with ow a b show ?thesis by blast
  qed
qed

lemma del_cases:
  "Server_handle_del D owner usr = (D', r) \<Longrightarrow>
     D' = D \<or> (\<exists>ow. owner = Some ow \<and> friends_remove D ow usr = Inr D' \<and> (\<exists>e. friends_remove D' usr ow = Inl e))
          \<or> (\<exists>ow D1. owner = Some ow \<and> friends_remove D ow usr = Inr D1 \<and> friends_remove D1 usr ow = Inr D')"
  by (auto simp: Server_handle_del_def split: option.splits sum.splits if_splits)

lemma remove_fails:
  "friends_remove D k x = Inl e \<Longrightarrow> \<not> is_user D k \<or> x \<notin> set (friends_of D k)"
  by (auto simp: friends_remove_def friends_of_def is_user_def split: option.splits if_splits)

lemma symmetric_add: "symmetric D \<Longrightarrow> symmetric (fst (Server_handle_add D owner usr))"
proof -
  assume s: "symmetric D"
  obtain D' r where e: "Server_handle_add D owner usr = (D', r)" by force
  from add_cases[OF e] show ?thesis
  proof
    assume "D' = D" with s e show ?thesis by simp
  next
    assume "\<exists>ow D1. owner = Some ow \<and> friends_append D ow usr = Inr D1 \<and> friends_append D1 usr ow = Inr D'"
    then obtain ow D1 where a: "friends_append D ow usr = Inr D1" and b: "friends_append D1 usr ow = Inr D'" by blast
    note A = friends_append_Inr[OF a] and B = friends_append_Inr[OF b]
    have "symmetric D'"
      unfolding symmetric_def
    proof (intro allI impI)
      fix u v assume "is_user D' u" "is_user D' v"
      then have "is_user D u" "is_user D v" using A B by auto
      then have "count_list (friends_of D v) u = count_list (friends_of D u) v"
        using s by (simp add: symmetric_def)
      then show "count_list (friends_of D' v) u = count_list (friends_of D' u) v"
        using A B by auto
    qed
    with e show ?thesis by simp
  qed
qed

lemma symmetric_del: "symmetric D \<Longrightarrow> symmetric (fst (Server_handle_del D owner usr))"
proof -
  assume s: "symmetric D"
  obtain D' r where e: "Server_handle_del D owner usr = (D', r)" by force
  from del_cases[OF e] consider
    (same) "D' = D"
  | (half) ow ex where "friends_remove D ow usr = Inr D'" "friends_remove D' usr ow = Inl ex"
  | (both) ow D1 where "friends_remove D ow usr = Inr D1" "friends_remove D1 usr ow = Inr D'"
    by blast
  then have "symmetric D'"
  proof cases
    case same
    then show ?thesis using s by simp
  next
    case half
    note A = friends_remove_Inr[OF half(1)]
    from remove_fails[OF half(2)] have f: "\<not> is_user D usr \<or> ow \<notin> set (friends_of D' usr)"
      using A by auto
    show ?thesis
      unfolding symmetric_def
    proof (intro allI impI)
      fix u v assume uv: "is_user D' u" "is_user D' v"
      then have iu: "is_user D u" "is_user D v" using A by auto
      then have c: "count_list (friends_of D v) u = count_list (friends_of D u) v"
        using s by (simp add: symmetric_def)
      have ow: "is_user D ow" using A by simp
      show "count_list (friends_of D' v) u = count_list (friends_of D' u) v"
      proof (cases "is_user D usr")
        case False
        then have "u \<noteq> usr" "v \<noteq> usr" using iu by auto
        then show ?thesis using A c by (auto simp: count_list_remove1)
      next
        case True
        then have n: "ow \<notin> set (friends_of D' usr)" using f by simp
        have "count_list (friends_of D usr) ow = count_list (friends_of D ow) usr"
          using s True ow by (simp add: symmetric_def)
        moreover have "usr \<in> set (friends_of D ow)" using A by simp
        ultimately have "ow \<in> set (friends_of D usr)" by (metis count_list_0_iff)
        with n have "usr = ow" using A by (auto split: if_splits)
        then show ?thesis using A c by (auto simp: count_list_remove1)
      qed
    qed
  next
    case both
    note A = friends_remove_Inr[OF both(1)] and B = friends_remove_Inr[OF both(2)]
    show ?thesis
      unfolding symmetric_def
    proof (intro allI impI)
      fix u v assume uv: "is_user D' u" "is_user D' v"
      then have iu: "is_user D u" "is_user D v" using A B by auto
      then have c: "count_list (friends_of D v) u = count_list (friends_of D u) v"
        using s by (simp add: symmetric_def)
      show "count_list (friends_of D' v) u = count_list (friends_of D' u) v"
        using A B c by (auto simp: count_list_remove1 split: if_splits)
    qed
  qed
  with e show ?thesis by simp
qed


lemma symmetric_DATASTORE0: "symmetric DATASTORE0"
  unfolding symmetric_def is_user_def friends_of_def DATASTORE0_def lit_def
  by (auto split: if_splits)

text \<open>
  Claim C8.  Friendship symmetry is an invariant of the store: from a store in which
  every two users occur equally often in each other's friends list, \<open>ADD\<close> and \<open>DEL\<close>
  lead to such a store again, whether they succeed, fail or raise.
\<close>

theorem friendship_symmetry_preserved:
  assumes "symmetric D"
  shows "symmetric (fst (Server_handle_add D owner usr)) \<and>
         symmetric (fst (Server_handle_del D owner usr))"
  using assms symmetric_add symmetric_del by blast

theorem friendship_symmetry_preserved_witness:
  "symmetric DATASTORE0 \<and>
   symmetric (fst (Server_handle_add DATASTORE0 (Some (lit ''michael'')) (lit ''kenny''))) \<and>
   symmetric (fst (Server_handle_del DATASTORE0 (Some (lit ''andrei'')) (lit ''safa'')))"
  using friendship_symmetry_preserved [OF symmetric_DATASTORE0] symmetric_DATASTORE0
  by blast

lemma add_result:
  assumes "is_user D owner" "is_user D usr"
  shows "\<exists>D'. Server_handle_add D (Some owner) usr = (D', Inr (True, [])) \<and>
           (\<forall>w. is_user D' w = is_user D w) \<and>
           (\<forall>w. friends_of D' w =
                 friends_of D w @ (if w = owner then [usr] else []) @ (if w = usr then [owner] else []))"
proof -
  from friends_append_user[OF assms(1)] obtain D1 where a: "friends_append D owner usr = Inr D1"
    by blast
  note A = friends_append_Inr[OF a]
  have "is_user D1 usr" using A assms by simp
  from friends_append_user[OF this] obtain D2 where b: "friends_append D1 usr owner = Inr D2"
    by blast
  note B = friends_append_Inr[OF b]
  have "Server_handle_add D (Some owner) usr = (D2, Inr (True, []))"
    using assms a b by (auto simp: Server_handle_add_def lookup_def is_user_def)
  moreover have "\<forall>w. is_user D2 w = is_user D w" using A B by simp
  moreover have "\<forall>w. friends_of D2 w =
      friends_of D w @ (if w = owner then [usr] else []) @ (if w = usr then [owner] else [])"
    using A B by auto
  ultimately show ?thesis by blast
qed

text \<open>
  Claim C9.  \<open>ADD(owner, user)\<close> succeeds whenever both names are users of the store;
  an existing friendship is not looked at.  It appends \<open>user\<close> to the list of \<open>owner\<close>
  and \<open>owner\<close> to the list of \<open>user\<close>, so that \<open>ADD(owner, owner)\<close> appends \<open>owner\<close>
  twice to its own list, and a second \<open>ADD\<close> of the same pair succeeds again and leaves
  each entry twice.
\<close>

theorem add_without_friendship_check:
  assumes "is_user D owner" and "is_user D usr"
  shows "snd (Server_handle_add D (Some owner) usr) = Inr (True, []) \<and>
         friends_of (fst (Server_handle_add D (Some owner) usr)) owner =
           friends_of D owner @ (if usr = owner then [owner, owner] else [usr]) \<and>
         friends_of (fst (Server_handle_add D (Some owner) usr)) usr =
           friends_of D usr @ (if usr = owner then [owner, owner] else [owner]) \<and>
         snd (Server_handle_add (fst (Server_handle_add D (Some owner) usr)) (Some owner) usr)
           = Inr (True, []) \<and>
         friends_of (fst (Server_handle_add (fst (Server_handle_add D (Some owner) usr))
                            (Some owner) usr)) owner =
           friends_of D owner
             @ (if usr = owner then [owner, owner, owner, owner] else [usr, usr]) \<and>
         friends_of (fst (Server_handle_add (fst (Server_handle_add D (Some owner) usr))
                            (Some owner) usr)) usr =
           friends_of D usr
             @ (if usr = owner then [owner, owner, owner, owner] else [owner, owner])"
proof -
  from add_result[OF assms] obtain D1 where
    a: "Server_handle_add D (Some owner) usr = (D1, Inr (True, []))"
    and u1: "\<forall>w. is_user D1 w = is_user D w"
    and f1: "\<forall>w. friends_of D1 w =
        friends_of D w @ (if w = owner then [usr] else []) @ (if w = usr then [owner] else [])"
    by blast
  have "is_user D1 owner" "is_user D1 usr" using u1 assms by simp_all
  from add_result[OF this] obtain D2 where
    b: "Server_handle_add D1 (Some owner) usr = (D2, Inr (True, []))"
    and f2: "\<forall>w. friends_of D2 w =
        friends_of D1 w @ (if w = owner then [usr] else []) @ (if w = usr then [owner] else [])"
    by blast
  show ?thesis using a b f1 f2 by simp
qed

theorem add_without_friendship_check_witness:
  "is_user DATASTORE0 (lit ''andrei'') \<and> is_user DATASTORE0 (lit ''safa'') \<and>
   snd (Server_handle_add DATASTORE0 (Some (lit ''andrei'')) (lit ''safa'')) = Inr (True, []) \<and>
   friends_of (fst (Server_handle_add DATASTORE0 (Some (lit ''andrei'')) (lit ''safa'')))
     (lit ''andrei'')
   = [lit ''safa'', lit ''cameron'', lit ''kenny'', lit ''colbert'', lit ''safa'']"
proof -
  have u: "is_user DATASTORE0 (lit ''andrei'')" "is_user DATASTORE0 (lit ''safa'')"
    by (simp_all add: is_user_def DATASTORE0_def lit_def)
  have f: "friends_of DATASTORE0 (lit ''andrei'')
           = [lit ''safa'', lit ''cameron'', lit ''kenny'', lit ''colbert'']"
    by (simp add: friends_of_def DATASTORE0_def lit_def)
  have n: "lit ''safa'' \<noteq> lit ''andrei''" by (simp add: lit_def)
  show ?thesis using add_without_friendship_check[OF u] u f n by simp
qed

section \<open>The registry: routing\<close>

lemma route_DATASTORE: "DATASTORE (route i r m srv) = DATASTORE srv"
  by (induction i arbitrary: srv) (auto simp: Let_def)

lemma route_untouched:
  "\<not> deliverable r (object srv a) \<Longrightarrow> object (route i r m srv) a = object srv a"
proof (induction i arbitrary: srv)
  case 0
  then show ?case by simp
next
  case (Suc i)
  let ?ref = "sessions srv ! i"
  let ?c = "object srv ?ref"
  show ?case
  proof (cases "is_alive ?c")
    case False
    let ?srv1 = "srv\<lparr>sessions := take i (sessions srv) @ drop (Suc i) (sessions srv)\<rparr>"
    have "\<not> deliverable r (object ?srv1 a)" using Suc.prems by simp
    from Suc.IH[OF this] False show ?thesis by (simp add: Let_def)
  next
    case True
    show ?thesis
    proof (cases "user ?c = r \<and> check_msg_state ?c")
      case deliv: True
      let ?srv1 = "srv\<lparr>object := (object srv)(?ref := ?c\<lparr>msgq := msgq ?c @ [m]\<rparr>)\<rparr>"
      have dc: "deliverable r ?c"
        using True deliv by (simp add: deliverable_def check_msg_state_def split: if_splits)
      then have ne: "a \<noteq> ?ref" using Suc.prems by auto
      then have "\<not> deliverable r (object ?srv1 a)" using Suc.prems by simp
      from Suc.IH[OF this] have "object (route i r m ?srv1) a = object srv a" using ne by simp
      moreover have "route (Suc i) r m srv = route i r m ?srv1"
        using True deliv by (simp add: Let_def)
      ultimately show ?thesis by simp
    next
      case False
      have "route (Suc i) r m srv = route i r m srv" using True False by (auto simp: Let_def)
      then show ?thesis using Suc.IH[OF Suc.prems] by simp
    qed
  qed
qed

lemma distinct_del_nth: "distinct xs \<Longrightarrow> distinct (take i xs @ drop (Suc i) xs)"
  by (simp add: set_take_disj_set_drop_if_distinct)

lemma nth_notin_take: "distinct xs \<Longrightarrow> i < length xs \<Longrightarrow> xs ! i \<notin> set (take i xs)"
  by (auto simp: in_set_conv_nth nth_eq_iff_index_eq)

lemma route_char:
  "i \<le> length (sessions srv) \<Longrightarrow> distinct (sessions srv) \<Longrightarrow>
   sessions (route i r m srv)
     = filter (\<lambda>a. is_alive (object srv a)) (take i (sessions srv)) @ drop i (sessions srv) \<and>
   (\<forall>a. object (route i r m srv) a
     = (if a \<in> set (take i (sessions srv)) \<and> deliverable r (object srv a)
        then put m (object srv a) else object srv a))"
proof (induction i arbitrary: srv)
  case 0
  then show ?case by simp
next
  case (Suc i)
  let ?ss = "sessions srv"
  let ?ref = "?ss ! i"
  let ?c = "object srv ?ref"
  have il: "i < length ?ss" using Suc.prems by simp
  have tk: "take (Suc i) ?ss = take i ?ss @ [?ref]" using il by (simp add: take_Suc_conv_app_nth)
  have nin: "?ref \<notin> set (take i ?ss)" using nth_notin_take[OF Suc.prems(2) il] .
  show ?case
  proof (cases "is_alive ?c")
    case False
    let ?srv1 = "srv\<lparr>sessions := take i ?ss @ drop (Suc i) ?ss\<rparr>"
    have d1: "distinct (sessions ?srv1)"
      using distinct_del_nth[OF Suc.prems(2), of i] by simp
    have l1: "i \<le> length (sessions ?srv1)" using il by simp
    have r: "route (Suc i) r m srv = route i r m ?srv1" using False by (simp add: Let_def)
    have t1: "take i (sessions ?srv1) = take i ?ss" using il by simp
    have dr1: "drop i (sessions ?srv1) = drop (Suc i) ?ss" using il by simp
    from Suc.IH[of ?srv1] l1 d1 have
      A: "sessions (route i r m ?srv1) = filter (\<lambda>a. is_alive (object srv a)) (take i ?ss) @ drop (Suc i) ?ss"
      and B: "\<forall>a. object (route i r m ?srv1) a
     = (if a \<in> set (take i ?ss) \<and> deliverable r (object srv a)
        then put m (object srv a) else object srv a)"
      using t1 dr1 by auto
    show ?thesis using r A B tk False by (auto simp: deliverable_def)
  next
    case True
    show ?thesis
    proof (cases "user ?c = r \<and> check_msg_state ?c")
      case deliv: True
      let ?srv1 = "srv\<lparr>object := (object srv)(?ref := ?c\<lparr>msgq := msgq ?c @ [m]\<rparr>)\<rparr>"
      have r: "route (Suc i) r m srv = route i r m ?srv1" using True deliv by (simp add: Let_def)
      have l1: "i \<le> length (sessions ?srv1)" "distinct (sessions ?srv1)" using il Suc.prems by simp_all
      from Suc.IH[of ?srv1] l1 have
        A: "sessions (route i r m ?srv1) = filter (\<lambda>a. is_alive (object ?srv1 a)) (take i ?ss) @ drop i ?ss"
        and B: "\<forall>a. object (route i r m ?srv1) a
       = (if a \<in> set (take i ?ss) \<and> deliverable r (object ?srv1 a)
          then put m (object ?srv1 a) else object ?srv1 a)"
        by auto
      have al: "\<And>a. is_alive (object ?srv1 a) = is_alive (object srv a)" by simp
      have dl: "\<And>a. deliverable r (object ?srv1 a) = deliverable r (object srv a)"
        by (simp add: deliverable_def)
      have dc: "deliverable r ?c" using True deliv by (simp add: deliverable_def check_msg_state_def split: if_splits)
      have s: "sessions (route (Suc i) r m srv) =
           filter (\<lambda>a. is_alive (object srv a)) (take (Suc i) ?ss) @ drop (Suc i) ?ss"
        using r A al tk True il by (simp add: Cons_nth_drop_Suc)
      have o: "\<forall>a. object (route (Suc i) r m srv) a
       = (if a \<in> set (take (Suc i) ?ss) \<and> deliverable r (object srv a)
          then put m (object srv a) else object srv a)"
        using r B dl tk nin dc by (auto simp: put_def)
      show ?thesis using s o by blast
    next
      case nd: False
      have r: "route (Suc i) r m srv = route i r m srv" using True nd by (auto simp: Let_def)
      have ndc: "\<not> deliverable r ?c" using nd by (auto simp: deliverable_def check_msg_state_def)
      from Suc.IH[of srv] Suc.prems have
        A: "sessions (route i r m srv) = filter (\<lambda>a. is_alive (object srv a)) (take i ?ss) @ drop i ?ss"
        and B: "\<forall>a. object (route i r m srv) a
       = (if a \<in> set (take i ?ss) \<and> deliverable r (object srv a)
          then put m (object srv a) else object srv a)"
        by auto
      have s: "sessions (route (Suc i) r m srv) =
           filter (\<lambda>a. is_alive (object srv a)) (take (Suc i) ?ss) @ drop (Suc i) ?ss"
        using r A tk True il by (simp add: Cons_nth_drop_Suc)
      have o: "\<forall>a. object (route (Suc i) r m srv) a
       = (if a \<in> set (take (Suc i) ?ss) \<and> deliverable r (object srv a)
          then put m (object srv a) else object srv a)"
        using r B tk ndc by auto
      show ?thesis using s o by blast
    qed
  qed
qed

lemma route_outside:
  "i \<le> length (sessions srv) \<Longrightarrow> a \<notin> set (take i (sessions srv)) \<Longrightarrow>
   object (route i r m srv) a = object srv a"
proof (induction i arbitrary: srv)
  case 0
  then show ?case by simp
next
  case (Suc i)
  let ?ss = "sessions srv"
  have il: "i < length ?ss" using Suc.prems by simp
  have tk: "take (Suc i) ?ss = take i ?ss @ [?ss ! i]" using il by (simp add: take_Suc_conv_app_nth)
  have na: "a \<notin> set (take i ?ss)" "a \<noteq> ?ss ! i" using Suc.prems(2) tk by auto
  let ?srv1 = "srv\<lparr>sessions := take i ?ss @ drop (Suc i) ?ss\<rparr>"
  let ?srv2 = "srv\<lparr>object := (object srv)
     (?ss ! i := (object srv (?ss ! i))\<lparr>msgq := msgq (object srv (?ss ! i)) @ [m]\<rparr>)\<rparr>"
  have 1: "object (route i r m ?srv1) a = object srv a"
    using Suc.IH[of ?srv1] il na by simp
  have 2: "object (route i r m ?srv2) a = object srv a"
    using Suc.IH[of ?srv2] il na by simp
  have 3: "object (route i r m srv) a = object srv a"
    using Suc.IH[of srv] il na by simp
  show ?case using 1 2 3 by (simp add: Let_def)
qed

lemma route_none_conversing:
  assumes "none_conversing srv r"
  shows "object (Server_handle_message r m srv) = object srv"
proof
  fix a
  show "object (Server_handle_message r m srv) a = object srv a"
  proof (cases "a \<in> set (sessions srv)")
    case True
    then have "\<not> deliverable r (object srv a)"
      using assms by (auto simp: none_conversing_def deliverable_def list_all_iff)
    then show ?thesis by (simp add: Server_handle_message_def route_untouched)
  next
    case False
    then show ?thesis by (simp add: Server_handle_message_def route_outside)
  qed
qed

text \<open>
  Claim C5.  The routing operation changes no session whose phase is not
  \<open>Conversation\<close>: its outbound queue stays as it was.  When no registered session of
  the receiver is in a conversation, no session object changes at all and the store is
  untouched, so the message is kept nowhere; the sending session, if its own queue is
  empty, sends nothing and raises nothing.
\<close>

theorem routing_only_into_conversation:
  assumes "state (object srv a) \<noteq> Conversation"
  shows "object (Server_handle_message receiver msg srv) a = object srv a \<and>
         msgq (object (Server_handle_message receiver msg srv) a) = msgq (object srv a) \<and>
         DATASTORE (Server_handle_message receiver msg srv) = DATASTORE srv \<and>
         (none_conversing srv receiver \<longrightarrow>
            object (Server_handle_message receiver msg srv) = object srv \<and>
            (\<forall>s. text' msg \<noteq> [] \<and> target (object srv s) = receiver \<and> msgq (object srv s) = []
               \<longrightarrow> on_message srv s msg = (Server_handle_message receiver msg srv, [], None)))"
proof -
  have nd: "\<not> deliverable receiver (object srv a)" using assms by (simp add: deliverable_def)
  have 1: "object (Server_handle_message receiver msg srv) a = object srv a"
    using route_untouched[OF nd] by (simp add: Server_handle_message_def)
  have 2: "DATASTORE (Server_handle_message receiver msg srv) = DATASTORE srv"
    by (simp add: Server_handle_message_def route_DATASTORE)
  have 3: "on_message srv s msg = (Server_handle_message receiver msg srv, [], None)"
    if nc: "none_conversing srv receiver"
      and h: "text' msg \<noteq> [] \<and> target (object srv s) = receiver \<and> msgq (object srv s) = []"
    for s
    using h route_none_conversing[OF nc, of msg] by (simp add: on_message_def drain_def)
  show ?thesis using 1 2 3 route_none_conversing by auto
qed

theorem routing_only_into_conversation_witness:
  "state (object example_server 3) \<noteq> Conversation \<and>
   none_conversing example_server (Some (lit ''kenny'')) \<and>
   msgq (object (Server_handle_message (Some (lit ''kenny'')) example_message example_server) 3)
     = [] \<and>
   on_message example_server 0 example_message
     = (Server_handle_message (Some (lit ''kenny'')) example_message example_server, [], None)"
proof -
  have h: "state (object example_server 3) \<noteq> Conversation"
    by (simp add: example_server_def new_session_def session_of_def)
  have n: "none_conversing example_server (Some (lit ''kenny''))"
    by (simp add: none_conversing_def example_server_def new_session_def session_of_def lit_def)
  have s: "text' example_message \<noteq> [] \<and>
           target (object example_server 0) = Some (lit ''kenny'') \<and>
           msgq (object example_server 0) = []"
    by (simp add: example_message_def example_server_def new_session_def session_of_def lit_def)
  have q: "msgq (object example_server 3) = []"
    by (simp add: example_server_def new_session_def session_of_def)
  show ?thesis
    using routing_only_into_conversation [OF h, of "Some (lit ''kenny'')" example_message] h n s q
    by simp
qed

text \<open>
  Claim C10.  The routing operation puts one copy of the message on the queue of every
  registered session whose thread is alive, whose user is the receiver and whose phase
  is \<open>Conversation\<close>, however many there are, and on no other; in the same pass the
  sessions whose thread has ended leave the registry.
\<close>

theorem routing_reaches_every_conversing_session:
  assumes "distinct (sessions srv)"
  shows "sessions (Server_handle_message receiver msg srv)
           = filter (\<lambda>a. is_alive (object srv a)) (sessions srv) \<and>
         (\<forall>a. object (Server_handle_message receiver msg srv) a
           = (if a \<in> set (sessions srv) \<and> deliverable receiver (object srv a)
              then put msg (object srv a) else object srv a))"
  using route_char[of "length (sessions srv)" srv receiver msg] assms
  by (simp add: Server_handle_message_def)


theorem routing_reaches_every_conversing_session_witness:
  "distinct (sessions example_server) \<and>
   sessions (Server_handle_message (Some (lit ''safa'')) example_message example_server)
     = [0, 1, 2, 3, 5, 6] \<and>
   msgq (object (Server_handle_message (Some (lit ''safa'')) example_message example_server) 1)
     = [example_message] \<and>
   msgq (object (Server_handle_message (Some (lit ''safa'')) example_message example_server) 2)
     = [example_message] \<and>
   msgq (object (Server_handle_message (Some (lit ''safa'')) example_message example_server) 0)
     = []"
proof -
  have d: "distinct (sessions example_server)" by (simp add: example_server_def new_session_def)
  show ?thesis
    using routing_reaches_every_conversing_session [OF d, of "Some (lit ''safa'')" example_message]
    by (simp add: example_server_def session_of_def new_session_def deliverable_def put_def lit_def)
qed

section \<open>The wire codec\<close>

lemma ascii_simps:
  "ascii []" "ascii (c # cs) \<longleftrightarrow> c < 128 \<and> ascii cs" "ascii (xs @ ys) \<longleftrightarrow> ascii xs \<and> ascii ys"
  "ascii (replicate n 32)" "ascii [0]"
  by (auto simp: ascii_def list_all_iff)

lemma ascii_lit_cmds:
  "ascii VERSION" "ascii AUTH" "ascii ADD" "ascii DEL" "ascii LIST" "ascii SEARCH" "ascii CONV"
  "ascii QUIT" "ascii OK" "ascii ERROR"
  by (simp_all add: ascii_def lit_def VERSION_def AUTH_def ADD_def DEL_def LIST_def SEARCH_def
      CONV_def QUIT_def OK_def ERROR_def)

lemma valid_cmd: "valid c \<Longrightarrow> length c = 4 \<and> ascii c"
  by (auto simp: valid_def ascii_def lit_def VERSION_def AUTH_def ADD_def DEL_def LIST_def
      SEARCH_def CONV_def QUIT_def)

lemma byte_of_ascii: "c < 128 \<Longrightarrow> (of_nat c :: byte) < 128 \<and> unat (of_nat c :: byte) = c"
  by (simp add: word_less_nat_alt unat_of_nat)

lemma encode_ascii: "ascii s \<Longrightarrow> encode s = Inr (map of_nat s)"
  by (induction s) (simp_all add: ascii_simps encode_char_def sbind_def)

lemma decode_low: "list_all (\<lambda>b. b < 128) bs \<Longrightarrow> decode bs = Inr (map unat bs)"
  by (induction bs) (simp_all add: push_def)

lemma decode_encode_ascii: "ascii s \<Longrightarrow> decode (map of_nat s) = Inr s"
proof -
  assume a: "ascii s"
  then have "list_all (\<lambda>b. b < 128) (map of_nat s :: bytes)"
    by (auto simp: ascii_def list_all_iff byte_of_ascii)
  then have "decode (map of_nat s) = Inr (map unat (map of_nat s :: bytes))"
    by (rule decode_low)
  moreover have "map unat (map of_nat s :: bytes) = s"
    using a by (induction s) (simp_all add: ascii_simps byte_of_ascii)
  ultimately show ?thesis by simp
qed

lemma parse_pkt_field_terminated: "parse_pkt_field (s @ 0 # r) = parse_pkt_field s"
  by (induction s) simp_all

lemma parse_pkt_field_id: "0 \<notin> set s \<Longrightarrow> parse_pkt_field s = s"
  by (induction s) auto

lemma ljust_field:
  "length s \<le> n \<Longrightarrow> length (ljust (Suc n) (s @ [0])) = Suc n"
  "ascii s \<Longrightarrow> ascii (ljust k (s @ [0]))"
  "parse_pkt_field (ljust k (s @ [0])) = parse_pkt_field s"
  by (simp_all add: ljust_def ascii_simps parse_pkt_field_terminated)

lemma le_bytes:
  assumes "n < 4294967296"
  shows "n mod 256 + 256 * (n div 256 mod 256) + 65536 * (n div 65536 mod 256)
          + 16777216 * (n div 16777216 mod 256) = (n::nat)"
proof -
  define a where "a = n div 256"
  define b where "b = a div 256"
  define c where "c = b div 256"
  have b': "n div 65536 = b" unfolding b_def a_def by (simp add: div_mult2_eq[symmetric])
  have c': "n div 16777216 = c" unfolding c_def b_def a_def by (simp add: div_mult2_eq[symmetric])
  have "c < 256" using assms c' less_mult_imp_div_less[of n 256 16777216] by simp
  then have c4: "c mod 256 = c" by simp
  have 1: "n = n mod 256 + 256 * a" unfolding a_def by simp
  have 2: "a = a mod 256 + 256 * b" unfolding b_def by simp
  have 3: "b = b mod 256 + 256 * c" unfolding c_def by simp
  have "n mod 256 + 256 * (a mod 256) + 65536 * (b mod 256) + 16777216 * c = n"
    using 1 2 3 by linarith
  then show ?thesis using b' c' c4 a_def by simp
qed

lemma unpack_pack: "n < 4294967296 \<Longrightarrow> sbind (pack_I n) unpack_I = Inr n"
  using le_bytes[of n] by (simp add: pack_I_def unpack_I_def sbind_def unat_of_nat)

lemma request_roundtrip:
  assumes "valid c" "ascii a1" "length a1 \<le> 15" "ascii a2" "length a2 \<le> 15"
  shows "\<exists>b. build_req c (Some a1) (Some a2) = Inr b \<and> length b = 36 \<and>
             WispServer_parse_request (b # rest)
               = (Inr \<lparr>cmd = c, arg1 = parse_pkt_field a1, arg2 = parse_pkt_field a2\<rparr>, rest)"
proof -
  define one where "one = ljust 16 (a1 @ [0])"
  define two where "two = ljust 16 (a2 @ [0])"
  define b :: bytes where "b = map of_nat (c @ one @ two)"
  have c: "length c = 4" "ascii c" using valid_cmd[OF assms(1)] by simp_all
  have l1: "length one = 16" and l2: "length two = 16"
    using ljust_field(1)[of a1 15] ljust_field(1)[of a2 15] assms
    by (simp_all add: one_def two_def)
  have as: "ascii one" "ascii two" using assms by (simp_all add: one_def two_def ljust_field)
  have enc: "build_req c (Some a1) (Some a2) = Inr b"
    using c as by (simp add: build_req_def fstring_def Let_def one_def[symmetric]
        two_def[symmetric] encode_ascii ascii_simps b_def)
  have len: "length b = 36" using c l1 l2 by (simp add: b_def)
  have rc: "WispServer_recv 36 (b # rest) = (Inr b, rest)"
    using len by (simp add: WispServer_recv_def)
  have t1: "take 4 b = map of_nat c" using c by (simp add: b_def)
  have t2: "take 16 (drop 4 b) = map of_nat one" using c l1 by (simp add: b_def)
  have t3: "drop 20 b = map of_nat two" using c l1 by (simp add: b_def)
  have "WispServer_parse_request (b # rest)
          = (Inr \<lparr>cmd = c, arg1 = parse_pkt_field one, arg2 = parse_pkt_field two\<rparr>, rest)"
    using rc t1 t2 t3 c as assms(1)
    by (simp add: WispServer_parse_request_def decode_encode_ascii)
  then show ?thesis using enc len by (simp add: one_def two_def ljust_field)
qed

lemma message_roundtrip:
  assumes "0 < t" "t < 4294967296" "ascii s" "length s \<le> 127"
  shows "\<exists>b. build_msg t s = Inr b \<and> length b = 132 \<and>
             parse_message (b # rest) now = (Some \<lparr>time = t, text' = parse_pkt_field s\<rparr>, rest)"
proof -
  define f where "f = ljust 128 (s @ [0])"
  obtain tb where tb: "pack_I t = Inr tb" "length tb = 4" "unpack_I tb = Inr t"
    using unpack_pack[OF assms(2)] assms(2) by (auto simp: pack_I_def sbind_def)
  define b :: bytes where "b = tb @ map of_nat f"
  have lf: "length f = 128" using ljust_field(1)[of s 127] assms by (simp add: f_def)
  have af: "ascii f" using assms by (simp add: f_def ljust_field)
  have enc: "build_msg t s = Inr b"
    using tb af by (simp add: build_msg_def sbind_def f_def[symmetric] encode_ascii b_def)
  have len: "length b = 132" using tb lf by (simp add: b_def)
  have "parse_message (b # rest) now
          = (Some (WispMessage_init (parse_pkt_field f) (Some t) now), rest)"
    using len tb af by (simp add: parse_message_def b_def decode_encode_ascii)
  then show ?thesis using enc len assms(1) by (simp add: f_def ljust_field WispMessage_init_def)
qed

lemma build_fields_ok:
  "list_all (\<lambda>d. ascii d \<and> length d \<le> 15) ds \<Longrightarrow>
     build_fields h ds = Inr (h @ fields ds) \<and> length (fields ds) = 16 * length ds"
proof (induction ds arbitrary: h)
  case Nil
  then show ?case by (simp add: fields_def)
next
  case (Cons d ds)
  have "length (ljust 16 (d @ [0])) = 16" using ljust_field(1)[of d 15] Cons.prems by simp
  moreover have "ascii (ljust 16 (d @ [0]))" using Cons.prems by (simp add: ljust_field)
  ultimately show ?case
    using Cons.IH[of "h @ map of_nat (ljust 16 (d @ [0]))"] Cons.prems
    by (simp add: fields_def sbind_def encode_ascii)
qed

lemma recv_fields_ok:
  "list_all (\<lambda>d. ascii d \<and> length d \<le> 15) ds \<Longrightarrow>
     recv_fields (length ds) acc (if fields ds = [] then rest else fields ds # rest)
       = (Inr (acc @ map parse_pkt_field ds), rest)"
proof (induction ds arbitrary: acc)
  case Nil
  then show ?case by (simp add: fields_def)
next
  case (Cons d ds)
  define f :: bytes where "f = map of_nat (ljust 16 (d @ [0]))"
  have lf: "length f = 16" using ljust_field(1)[of d 15] Cons.prems by (simp add: f_def)
  have df: "decode f = Inr (ljust 16 (d @ [0]))"
    using Cons.prems by (simp add: f_def decode_encode_ascii ljust_field)
  have fs: "fields (d # ds) = f @ fields ds" by (simp add: fields_def f_def)
  have ne: "fields (d # ds) \<noteq> []" using fs lf by auto
  have rv: "recv 16 (fields (d # ds) # rest)
              = (f, if fields ds = [] then rest else fields ds # rest)"
    using fs lf by auto
  show ?case
    using Cons.IH[of "acc @ [parse_pkt_field d]"] Cons.prems ne rv df
    by (simp add: ljust_field)
qed

lemma response_roundtrip:
  assumes "c = OK \<or> c = ERROR" "list_all (\<lambda>d. ascii d \<and> length d \<le> 15) ds"
    "length ds < 4294967296"
  shows "\<exists>b. build_res c (length ds) ds = Inr b \<and> length b = 6 + 16 * length ds \<and>
             WispClient_parse_response (b # rest)
               = (Inr \<lparr>code = c, count = length ds, data = map parse_pkt_field ds\<rparr>, rest)"
proof -
  obtain nb where nb: "pack_I (length ds) = Inr nb" "length nb = 4" "unpack_I nb = Inr (length ds)"
    using unpack_pack[OF assms(3)] assms(3) by (auto simp: pack_I_def sbind_def)
  have c: "length c = 2" "ascii c" using assms(1) ascii_lit_cmds by (auto simp: OK_def ERROR_def lit_def)
  define h :: bytes where "h = map of_nat c @ nb"
  define b where "b = h @ fields ds"
  have lh: "length h = 6" using c nb by (simp add: h_def)
  note bf = build_fields_ok[OF assms(2), of h]
  have enc: "build_res c (length ds) ds = Inr b"
    using c nb bf by (simp add: build_res_def sbind_def encode_ascii h_def b_def)
  have len: "length b = 6 + 16 * length ds" using lh bf by (simp add: b_def)
  have rv: "recv 6 (b # rest) = (h, if fields ds = [] then rest else fields ds # rest)"
    using lh by (auto simp: b_def)
  have dc: "decode (take 2 h) = Inr c" using c by (simp add: h_def decode_encode_ascii)
  have un: "unpack_I (take 4 (drop 2 h)) = Inr (length ds)" using c nb by (simp add: h_def)
  have cc: "(if c = OK then OK else ERROR) = c" using assms(1) by auto
  have "WispClient_parse_response (b # rest)
          = (Inr (WispResponse_init c (map parse_pkt_field ds)), rest)"
    using rv lh dc un cc recv_fields_ok[OF assms(2), of "[]" rest]
    by (simp add: WispClient_parse_response_def Let_def)
  then show ?thesis using enc len by (simp add: WispResponse_init_def)
qed

lemma replicate_num: "replicate (numeral k) x = x # replicate (pred_numeral k) x"
  by (simp add: numeral_eq_Suc)

text \<open>
  Within the width of a field the codec does return what was sent: the three lemmas
  above cover requests and response items of at most 15 ASCII characters and message
  texts of at most 127.  The client, however, lets through arguments of 16 characters
  (\<open>while len(username) > 16\<close>) and sends chat lines as typed.
\<close>

lemma encode_sixteen:
  "encode_request \<lparr>cmd = AUTH, arg1 = Some sixteen, arg2 = Some (lit ''pw'')\<rparr> = Inr frame_sixteen"
  by (simp add: encode_request_def build_req_def fstring_def sixteen_def frame_sixteen_def
      AUTH_def lit_def blit_def ljust_def encode_char_def sbind_def replicate_num)

lemma parse_sixteen:
  "WispServer_parse_request [frame_sixteen]
     = (Inr \<lparr>cmd = AUTH, arg1 = sixteen, arg2 = []\<rparr>, [[32]])"
  by (simp add: WispServer_parse_request_def WispServer_recv_def frame_sixteen_def blit_def
      push_def valid_def AUTH_def VERSION_def lit_def sixteen_def)

lemma leftover_byte_ends_session:
  "fst (run example_server 6 [[32]] False 0) = Exited 1"
  by (simp add: run_def run_body_def example_server_def new_session_def
      WispServer_parse_request_def WispServer_recv_def exit_code_def)

lemma encode_e_acute:
  "map_sum id length (encode_message \<lparr>time = 1, text' = [233]\<rparr>) = Inr 133"
  by (simp add: encode_message_def build_msg_def pack_I_def ljust_def encode_char_def sbind_def
      encode_ascii ascii_simps)

text \<open>
  Claim C2 at the inputs on which the code departs from it.  An \<open>AUTH\<close> request whose
  first argument has 16 characters, which the client accepts, is built as a frame of
  37 bytes: the terminator of the first field takes the first byte of the second.  The
  server reads 36 bytes, decodes the first argument whole and the second as the empty
  string, and the byte left over is what its next read returns, on which the session
  thread ends.  A message whose text is the single character \<open>U+00E9\<close>, two bytes in
  UTF-8, is padded by characters and built as a frame of 133 bytes.
\<close>

theorem frames_exceed_their_width:
  "length sixteen = 16 \<and>
   state (object example_server 6) = Authentication \<and>
   encode_request \<lparr>cmd = AUTH, arg1 = Some sixteen, arg2 = Some (lit ''pw'')\<rparr>
     = Inr frame_sixteen \<and>
   length frame_sixteen = 37 \<and>
   WispServer_parse_request [frame_sixteen]
     = (Inr \<lparr>cmd = AUTH, arg1 = sixteen, arg2 = []\<rparr>, [[32]]) \<and>
   fst (run example_server 6 [[32]] False 0) = Exited 1 \<and>
   length [233::nat] \<le> 127 \<and>
   map_sum id length (encode_message \<lparr>time = 1, text' = [233]\<rparr>) = Inr 133"
proof -
  have "length sixteen = 16" "length frame_sixteen = 37"
    by (simp_all add: sixteen_def lit_def frame_sixteen_def blit_def)
  moreover have "state (object example_server 6) = Authentication"
    by (simp add: example_server_def new_session_def)
  ultimately show ?thesis
    using encode_sixteen parse_sixteen leftover_byte_ends_session encode_e_acute by simp
qed

text \<open>
  A request the client builds without arguments carries \<open>None\<close>, which the f-string
  writes as the text \<open>None\<close>: the server decodes \<open>LIST\<close> with both arguments \<open>'None'\<close>.
\<close>

lemma none_arguments_on_the_wire:
  "encode_request \<lparr>cmd = LIST, arg1 = None, arg2 = None\<rparr> = Inr frame_list \<and>
   WispServer_parse_request [frame_list]
     = (Inr \<lparr>cmd = LIST, arg1 = lit ''None'', arg2 = lit ''None''\<rparr>, [])"
proof -
  have 1: "encode_request \<lparr>cmd = LIST, arg1 = None, arg2 = None\<rparr> = Inr frame_list"
    by (simp add: encode_request_def build_req_def fstring_def frame_list_def
        LIST_def lit_def blit_def ljust_def encode_char_def sbind_def replicate_num)
  have 2: "WispServer_parse_request [frame_list]
     = (Inr \<lparr>cmd = LIST, arg1 = lit ''None'', arg2 = lit ''None''\<rparr>, [])"
    by (simp add: WispServer_parse_request_def WispServer_recv_def frame_list_def blit_def
        push_def valid_def LIST_def AUTH_def ADD_def DEL_def VERSION_def lit_def)
  show ?thesis using 1 2 by simp
qed

section \<open>The discovery responder\<close>

lemma WISP_ARP_REQ_length: "length WISP_ARP_REQ = 16"
  by (simp add: WISP_ARP_REQ_def blit_def)

text \<open>
  Claim C6, as the code has it.  The responder reads \<open>len(WISP_ARP_REQ)\<close> bytes of the
  datagram and compares what it read with the probe: it broadcasts a reply if and only
  if the payload begins with the 16 probe bytes, whatever follows them, and no reply
  otherwise.  The reply is \<open>WISPRES:\<close> followed by the bytes of the address text.
\<close>

theorem discovery_reply:
  assumes "ascii addr"
  shows "service_descovery addr datagram
           = Inr (if take 16 datagram = WISP_ARP_REQ
                  then Some (WISP_ARP_RES @ map of_nat addr) else None) \<and>
         (take 16 datagram = WISP_ARP_REQ \<longleftrightarrow> (\<exists>rest. datagram = WISP_ARP_REQ @ rest))"
proof -
  have 1: "service_descovery addr datagram
           = Inr (if take 16 datagram = WISP_ARP_REQ
                  then Some (WISP_ARP_RES @ map of_nat addr) else None)"
    using assms
    by (simp add: service_descovery_def udp_recv_def WISP_ARP_REQ_length encode_ascii sbind_def)
  have 2: "take 16 datagram = WISP_ARP_REQ \<longleftrightarrow> (\<exists>rest. datagram = WISP_ARP_REQ @ rest)"
  proof
    assume "take 16 datagram = WISP_ARP_REQ"
    then have "datagram = WISP_ARP_REQ @ drop 16 datagram"
      by (metis append_take_drop_id)
    then show "\<exists>rest. datagram = WISP_ARP_REQ @ rest" ..
  next
    assume "\<exists>rest. datagram = WISP_ARP_REQ @ rest"
    then show "take 16 datagram = WISP_ARP_REQ"
      using WISP_ARP_REQ_length by auto
  qed
  show ?thesis using 1 2 by blast
qed

theorem discovery_reply_witness:
  "ascii (lit ''192.168.0.7'') \<and>
   service_descovery (lit ''192.168.0.7'') (blit ''Is anyone there?'')
     = Inr (Some (blit ''WISPRES:192.168.0.7'')) \<and>
   service_descovery (lit ''192.168.0.7'') (blit ''Is anyone here?'') = Inr None"
proof -
  have a: "ascii (lit ''192.168.0.7'')" by (simp add: ascii_def lit_def)
  show ?thesis
    using discovery_reply [OF a, of "blit ''Is anyone there?''"]
      discovery_reply [OF a, of "blit ''Is anyone here?''"] a
    by (simp add: WISP_ARP_REQ_def WISP_ARP_RES_def blit_def lit_def)
qed

theorem discovery_reply_counterexample:
  "blit ''Is anyone there?!'' \<noteq> WISP_ARP_REQ \<and>
   service_descovery (lit ''192.168.0.7'') (blit ''Is anyone there?!'')
     = Inr (Some (blit ''WISPRES:192.168.0.7''))"
  by (simp add: service_descovery_def udp_recv_def WISP_ARP_REQ_def WISP_ARP_RES_def blit_def
      lit_def encode_char_def sbind_def)

section \<open>Short reads\<close>

text \<open>
  Where the length of a read is tested: a request of another length than 36 ends the
  session thread, a message of fewer than 132 bytes gives \<open>None\<close> (on which both callers
  exit), a response header of fewer than 6 bytes ends the client process.
\<close>

lemma short_request_ends_session:
  assumes "state (object srv a) \<noteq> Conversation" and "length (fst (recv 36 sock)) \<noteq> 36"
  shows "fst (run srv a sock readable now) = Exited 1"
  using assms
  by (cases "recv 36 sock")
    (simp add: run_def run_body_def WispServer_parse_request_def WispServer_recv_def exit_code_def)

lemma short_message_is_None:
  assumes "length (fst (recv 132 sock)) < 132"
  shows "fst (parse_message sock now) = None"
  using assms by (cases "recv 132 sock") (simp add: parse_message_def)

lemma short_header_ends_client:
  assumes "length (fst (recv 6 sock)) < 6"
  shows "fst (WispClient_parse_response sock) = Inl (OsExit 1)"
  using assms by (cases "recv 6 sock") (simp add: WispClient_parse_response_def)

text \<open>
  Claim C7 at the input on which the code departs from it.  A response announces one
  item; the read of the item's field returns 8 of its 16 bytes, or nothing because the
  peer has closed.  \<open>_parse_response\<close> returns a response all the same, made of what
  was read, and leaves the other 8 bytes in the stream as the start of the next frame.
\<close>

theorem short_response_field_accepted:
  "length response_first_piece = 14 \<and>
   WispClient_parse_response [response_first_piece, response_second_piece]
     = (Inr \<lparr>code = OK, count = 1, data = [lit ''safa'']\<rparr>, [response_second_piece]) \<and>
   WispClient_parse_response [response_header]
     = (Inr \<lparr>code = OK, count = 1, data = [[]]\<rparr>, [])"
  by (simp add: WispClient_parse_response_def response_first_piece_def response_header_def
      response_second_piece_def blit_def lit_def OK_def push_def unpack_I_def
      WispResponse_init_def)

section \<open>CONV and the registry\<close>

text \<open>
  Claim C3 at the input on which the code departs from it.  The only registered
  session of colbert is one whose thread has ended; andrei, who has colbert as a
  friend, sends \<open>CONV(colbert)\<close>.  \<open>Server._handle_conv\<close> compares the \<open>user\<close> of every
  registry entry and never asks \<open>is_alive()\<close>: the request succeeds and the session
  enters the conversation phase.
\<close>

theorem conv_with_ended_session:
  "filter (\<lambda>a. user (object example_server a) = Some (lit ''colbert'')
               \<and> is_alive (object example_server a)) (sessions example_server) = [] \<and>
   state (object example_server 5) = Command \<and>
   user (object example_server 5) = Some (lit ''andrei'') \<and>
   Server_handle_conv example_server (Some (lit ''andrei'')) (lit ''colbert'') = Inr (True, []) \<and>
   run_request example_server 5 \<lparr>cmd = CONV, arg1 = lit ''colbert'', arg2 = []\<rparr>
     = (set_object example_server 5
          ((object example_server 5)\<lparr>state := Conversation, target := Some (lit ''colbert'')\<rparr>),
        [blit ''OK'' @ [0, 0, 0, 0]], None)"
proof -
  have 1: "Server_handle_conv example_server (Some (lit ''andrei'')) (lit ''colbert'')
             = Inr (True, [])"
    by (simp add: Server_handle_conv_def example_server_def new_session_def DATASTORE0_def lookup_def
        session_of_def lit_def)
  have 2: "state (object example_server 5) = Command"
    "user (object example_server 5) = Some (lit ''andrei'')"
    by (simp_all add: example_server_def new_session_def session_of_def)
  have 3: "CONV \<in> set [ADD, DEL, LIST, SEARCH, CONV, QUIT]" by simp
  have 4: "CONV \<noteq> AUTH" "CONV \<noteq> LIST" "CONV \<noteq> SEARCH" "CONV \<noteq> ADD" "CONV \<noteq> DEL"
    "CONV \<noteq> QUIT"
    by (simp_all add: CONV_def AUTH_def LIST_def SEARCH_def ADD_def DEL_def QUIT_def lit_def)
  have 5: "WispServer_send_res OK [] = Inr (blit ''OK'' @ [0, 0, 0, 0])"
    by (simp add: WispServer_send_res_def build_res_def OK_def lit_def blit_def encode_char_def
        sbind_def pack_I_def)
  have 6: "run_request example_server 5 \<lparr>cmd = CONV, arg1 = lit ''colbert'', arg2 = []\<rparr>
     = (set_object example_server 5
          ((object example_server 5)\<lparr>state := Conversation, target := Some (lit ''colbert'')\<rparr>),
        [blit ''OK'' @ [0, 0, 0, 0]], None)"
    using 1 2 3 4 5
    by (simp add: run_request_def STATE_MAP_def dispatch_def handlers_def
        WispServer_handle_conv_def)
  have 7: "filter (\<lambda>a. user (object example_server a) = Some (lit ''colbert'')
               \<and> is_alive (object example_server a)) (sessions example_server) = []"
    by (simp add: example_server_def new_session_def session_of_def lit_def)
  show ?thesis using 1 2 6 7 by simp
qed

section \<open>The session state machine\<close>

lemma build_fields_ascii:
  "list_all ascii ds \<Longrightarrow> \<exists>b. build_fields h ds = Inr b"
  by (induction ds arbitrary: h) (simp_all add: sbind_def encode_ascii ascii_simps ljust_def)

lemma send_res_ascii:
  assumes "ascii c" and "list_all ascii ds" and "length ds < 4294967296"
  shows "\<exists>b. WispServer_send_res c ds = Inr b"
  using assms build_fields_ascii[OF assms(2)]
  by (simp add: WispServer_send_res_def build_res_def sbind_def encode_ascii pack_I_def)

lemma send_res_Invalid_Cred: "\<exists>b. WispServer_send_res ERROR [lit ''Invalid Cred''] = Inr b"
  by (rule send_res_ascii) (simp_all add: ascii_lit_cmds, simp add: ascii_def lit_def)

lemma send_res_empty: "\<exists>b. WispServer_send_res OK [] = Inr b"
  by (rule send_res_ascii) (simp_all add: ascii_lit_cmds)

lemma AUTH_legal: "STATE_MAP Authentication = Inr [AUTH]"
  by (simp add: STATE_MAP_def)

lemma handle_auth_False:
  "\<not> fst (Server_handle_auth D u p) \<Longrightarrow> Server_handle_auth D u p = (False, [lit ''Invalid Cred''])"
  by (auto simp: Server_handle_auth_def split: option.splits if_splits)

lemma handle_auth_True:
  "fst (Server_handle_auth D u p) \<Longrightarrow> Server_handle_auth D u p = (True, [])"
  by (auto simp: Server_handle_auth_def split: option.splits if_splits)

lemma failed_auth_step:
  assumes "state (object srv a) = Authentication" and "failed_auth (DATASTORE srv) q"
  shows "\<exists>sent. run_request srv a q
           = (set_object srv a ((object srv a)\<lparr>auth_counter := auth_counter (object srv a) + 1\<rparr>),
              sent,
              if auth_counter (object srv a) + 1 > 5 then Some (SystemExit 1) else None) \<and>
           length sent = (if auth_counter (object srv a) + 1 > 5 then 0 else 1)"
proof -
  obtain b where b: "WispServer_send_res ERROR [lit ''Invalid Cred''] = Inr b"
    using send_res_Invalid_Cred by blast
  have c: "cmd q = AUTH" using assms(2) by (simp add: failed_auth_def)
  have f: "Server_handle_auth (DATASTORE srv) (arg1 q) (arg2 q) = (False, [lit ''Invalid Cred''])"
    using assms(2) handle_auth_False by (simp add: failed_auth_def)
  show ?thesis
    using assms(1) b c f
    by (simp add: run_request_def AUTH_legal dispatch_def handlers_def
        WispServer_handle_auth_def Let_def)
qed

lemma set_object_simps:
  "object (set_object srv a s) = (object srv)(a := s)"
  "DATASTORE (set_object srv a s) = DATASTORE srv"
  "sessions (set_object srv a s) = sessions srv"
  "set_object (set_object srv a s) a s' = set_object srv a s'"
  by (simp_all add: set_object_def)

lemma failed_auths_open:
  assumes "state (object srv a) = Authentication"
    and "list_all (failed_auth (DATASTORE srv)) reqs"
    and "auth_counter (object srv a) + length reqs \<le> 5"
  shows "\<exists>sent. run_requests srv a reqs
           = (set_object srv a
                ((object srv a)\<lparr>auth_counter := auth_counter (object srv a) + length reqs\<rparr>),
              sent, None) \<and> length sent = length reqs"
  using assms
proof (induction reqs arbitrary: srv)
  case Nil
  then show ?case by (simp add: set_object_def)
next
  case (Cons q reqs)
  let ?s1 = "(object srv a)\<lparr>auth_counter := auth_counter (object srv a) + 1\<rparr>"
  let ?srv1 = "set_object srv a ?s1"
  from failed_auth_step[of srv a q] Cons.prems obtain sent1 where
    1: "run_request srv a q = (?srv1, sent1, None)" "length sent1 = 1"
    by auto
  have "state (object ?srv1 a) = Authentication"
    "list_all (failed_auth (DATASTORE ?srv1)) reqs"
    "auth_counter (object ?srv1 a) + length reqs \<le> 5"
    using Cons.prems by (simp_all add: set_object_simps)
  from Cons.IH[OF this] obtain sent2 where
    2: "run_requests ?srv1 a reqs
          = (set_object ?srv1 a
               ((object ?srv1 a)\<lparr>auth_counter := auth_counter (object ?srv1 a) + length reqs\<rparr>),
             sent2, None)" "length sent2 = length reqs"
    by blast
  show ?case using 1 2 by (simp add: set_object_simps)
qed

lemma failed_auths_exit:
  assumes "state (object srv a) = Authentication"
    and "list_all (failed_auth (DATASTORE srv)) reqs"
    and "auth_counter (object srv a) \<le> 5"
    and "6 \<le> auth_counter (object srv a) + length reqs"
  shows "\<exists>srv' sent. run_requests srv a reqs = (srv', sent, Some (SystemExit 1)) \<and>
           length sent = 5 - auth_counter (object srv a) \<and>
           auth_counter (object srv' a) = 6 \<and> DATASTORE srv' = DATASTORE srv"
  using assms
proof (induction reqs arbitrary: srv)
  case Nil
  then show ?case by simp
next
  case (Cons q reqs)
  let ?s1 = "(object srv a)\<lparr>auth_counter := auth_counter (object srv a) + 1\<rparr>"
  let ?srv1 = "set_object srv a ?s1"
  show ?case
  proof (cases "auth_counter (object srv a) = 5")
    case True
    with failed_auth_step[of srv a q] Cons.prems obtain sent1 where
      "run_request srv a q = (?srv1, sent1, Some (SystemExit 1))" "length sent1 = 0"
      by auto
    then show ?thesis using True by (simp add: set_object_simps)
  next
    case False
    with failed_auth_step[of srv a q] Cons.prems obtain sent1 where
      1: "run_request srv a q = (?srv1, sent1, None)" "length sent1 = 1"
      by auto
    have "state (object ?srv1 a) = Authentication"
      "list_all (failed_auth (DATASTORE ?srv1)) reqs"
      "auth_counter (object ?srv1 a) \<le> 5"
      "6 \<le> auth_counter (object ?srv1 a) + length reqs"
      using Cons.prems False by (simp_all add: set_object_simps)
    from Cons.IH[OF this] obtain srv' sent2 where
      2: "run_requests ?srv1 a reqs = (srv', sent2, Some (SystemExit 1))"
      "length sent2 = 5 - auth_counter (object ?srv1 a)"
      "auth_counter (object srv' a) = 6" "DATASTORE srv' = DATASTORE ?srv1"
      by blast
    show ?thesis using 1 2 False Cons.prems(3) by (simp add: set_object_simps)
  qed
qed

lemma good_auth_step:
  assumes "state (object srv a) = Authentication"
    and "fst (Server_handle_auth (DATASTORE srv) u p)"
  shows "\<exists>b. run_request srv a \<lparr>cmd = AUTH, arg1 = u, arg2 = p\<rparr>
           = (set_object srv a ((object srv a)\<lparr>state := Command, user := Some u\<rparr>), [b], None)"
proof -
  obtain b where b: "WispServer_send_res OK [] = Inr b" using send_res_empty by blast
  show ?thesis
    using assms(1) b handle_auth_True[OF assms(2)]
    by (simp add: run_request_def AUTH_legal dispatch_def handlers_def
        WispServer_handle_auth_def Let_def)
qed

text \<open>
  Claim C4.  A session in the authentication phase whose counter is 0 is given \<open>AUTH\<close>
  requests that the store turns down.  After up to five of them it is still running in
  the authentication phase, has answered each with a response, its counter is their
  number, and an \<open>AUTH\<close> with good credentials then takes it to the command phase.
  The sixth raises \<open>SystemExit(1)\<close>, which ends the thread, with the counter at 6 and
  no sixth response.
\<close>

theorem six_failed_auths_end_session:
  assumes "state (object srv a) = Authentication"
    and "auth_counter (object srv a) = 0"
    and "list_all (failed_auth (DATASTORE srv)) reqs"
  shows "(length reqs \<le> 5 \<longrightarrow>
           (\<exists>sent. run_requests srv a reqs
                     = (set_object srv a ((object srv a)\<lparr>auth_counter := length reqs\<rparr>),
                        sent, None) \<and>
                   length sent = length reqs) \<and>
           (\<forall>u p. fst (Server_handle_auth (DATASTORE srv) u p) \<longrightarrow>
              (\<exists>b. run_request (fst (run_requests srv a reqs)) a \<lparr>cmd = AUTH, arg1 = u, arg2 = p\<rparr>
                     = (set_object srv a
                          ((object srv a)\<lparr>auth_counter := length reqs, state := Command,
                                           user := Some u\<rparr>),
                        [b], None)))) \<and>
         (6 \<le> length reqs \<longrightarrow>
           (\<exists>srv' sent. run_requests srv a reqs = (srv', sent, Some (SystemExit 1)) \<and>
                        length sent = 5 \<and> auth_counter (object srv' a) = 6 \<and>
                        exit_code (SystemExit 1) = 1))"
proof (intro conjI impI)
  assume le: "length reqs \<le> 5"
  let ?srv1 = "set_object srv a ((object srv a)\<lparr>auth_counter := length reqs\<rparr>)"
  from failed_auths_open[OF assms(1) assms(3)] le assms(2)
  obtain sent where s: "run_requests srv a reqs = (?srv1, sent, None)" "length sent = length reqs"
    by auto
  then show "\<exists>sent. run_requests srv a reqs = (?srv1, sent, None) \<and> length sent = length reqs"
    by blast
  show "\<forall>u p. fst (Server_handle_auth (DATASTORE srv) u p) \<longrightarrow>
          (\<exists>b. run_request (fst (run_requests srv a reqs)) a \<lparr>cmd = AUTH, arg1 = u, arg2 = p\<rparr>
                 = (set_object srv a
                      ((object srv a)\<lparr>auth_counter := length reqs, state := Command,
                                       user := Some u\<rparr>),
                    [b], None))"
  proof (intro allI impI)
    fix u p assume ok: "fst (Server_handle_auth (DATASTORE srv) u p)"
    have "state (object ?srv1 a) = Authentication" using assms(1) by (simp add: set_object_simps)
    moreover have "fst (Server_handle_auth (DATASTORE ?srv1) u p)"
      using ok by (simp add: set_object_simps)
    ultimately obtain b where
      "run_request ?srv1 a \<lparr>cmd = AUTH, arg1 = u, arg2 = p\<rparr>
         = (set_object ?srv1 a ((object ?srv1 a)\<lparr>state := Command, user := Some u\<rparr>), [b], None)"
      using good_auth_step by blast
    then show "\<exists>b. run_request (fst (run_requests srv a reqs)) a \<lparr>cmd = AUTH, arg1 = u, arg2 = p\<rparr>
                 = (set_object srv a
                      ((object srv a)\<lparr>auth_counter := length reqs, state := Command,
                                       user := Some u\<rparr>),
                    [b], None)"
      using s by (simp add: set_object_simps)
  qed
next
  assume "6 \<le> length reqs"
  with failed_auths_exit[OF assms(1) assms(3)] assms(2)
  show "\<exists>srv' sent. run_requests srv a reqs = (srv', sent, Some (SystemExit 1)) \<and>
                        length sent = 5 \<and> auth_counter (object srv' a) = 6 \<and>
                        exit_code (SystemExit 1) = 1"
    by (auto simp: exit_code_def)
qed

lemma bad_auth_fails: "failed_auth (DATASTORE example_server) bad_auth"
  by (simp add: failed_auth_def bad_auth_def example_server_def DATASTORE0_def
      Server_handle_auth_def lit_def)

theorem six_failed_auths_end_session_witness:
  "state (object example_server 6) = Authentication \<and>
   auth_counter (object example_server 6) = 0 \<and>
   list_all (failed_auth (DATASTORE example_server))
     [bad_auth, bad_auth, bad_auth, bad_auth, bad_auth, bad_auth] \<and>
   (\<exists>sent. run_requests example_server 6 [bad_auth, bad_auth, bad_auth, bad_auth, bad_auth]
             = (set_object example_server 6 ((object example_server 6)\<lparr>auth_counter := 5\<rparr>),
                sent, None) \<and> length sent = 5) \<and>
   (\<exists>srv' sent.
       run_requests example_server 6 [bad_auth, bad_auth, bad_auth, bad_auth, bad_auth, bad_auth]
         = (srv', sent, Some (SystemExit 1)) \<and> length sent = 5)"
proof -
  have s: "state (object example_server 6) = Authentication"
    "auth_counter (object example_server 6) = 0"
    by (simp_all add: example_server_def new_session_def)
  have l5: "list_all (failed_auth (DATASTORE example_server))
     [bad_auth, bad_auth, bad_auth, bad_auth, bad_auth]"
    and l6: "list_all (failed_auth (DATASTORE example_server))
     [bad_auth, bad_auth, bad_auth, bad_auth, bad_auth, bad_auth]"
    using bad_auth_fails by simp_all
  show ?thesis
    using six_failed_auths_end_session [OF s l5] six_failed_auths_end_session [OF s l6] s l6
    by (simp add: eval_nat_numeral del: run_requests.simps) blast
qed

lemma dispatch_observable:
  "fst (snd (dispatch srv a req)) \<noteq> [] \<or> snd (snd (dispatch srv a req)) \<noteq> None"
  by (simp add: dispatch_def split: prod.splits sum.splits)

lemma unrecognised_command:
  assumes "length pkt = 36" and "decode (take 4 pkt) = Inr c" and "\<not> valid c"
  shows "WispServer_parse_request (pkt # rest) = (Inl (SystemExit 0), rest)"
  using assms
  by (simp add: WispServer_parse_request_def WispServer_recv_def WispServer_handle_quit_def)

lemma not_Conversation: "STATE_MAP st = Inr legal \<Longrightarrow> st \<noteq> Conversation"
  by (auto simp: STATE_MAP_def)

lemma handshake_frames:
  "WispServer_send_res OK [lit ''1.1''] = Inr frame_versions"
  "WispServer_send_res OK [] = Inr frame_ok"
  "WispServer_send_res ERROR [lit ''Invalid version response''] = Inr frame_invalid_version"
  "WispServer_send_res ERROR [lit ''Unsupported version''] = Inr frame_unsupported"
  by (simp_all add: WispServer_send_res_def build_res_def pack_I_def sbind_def ljust_def
      encode_char_def OK_def ERROR_def lit_def blit_def frame_versions_def frame_ok_def
      frame_invalid_version_def frame_unsupported_def replicate_num)

lemma handshake_outcome:
  assumes "WispServer_parse_request sock = (Inr req, sock')"
  shows "version_handshake self sock
           = (if cmd req = VERSION \<and> arg1 req = lit ''1.1''
              then (self\<lparr>state := Authentication\<rparr>, [frame_versions, frame_ok], None)
              else if cmd req = VERSION
              then (self, [frame_versions, frame_unsupported], Some (SystemExit 1))
              else (self, [frame_versions, frame_invalid_version], Some (SystemExit 1)),
              sock')"
  using assms by (simp add: version_handshake_def handshake_frames)

lemma handshake_unrecognised:
  assumes "length pkt = 36" and "decode (take 4 pkt) = Inr c" and "\<not> valid c"
  shows "version_handshake self (pkt # rest)
           = ((self, [frame_versions], Some (SystemExit 0)), rest)"
  using unrecognised_command[OF assms, of rest]
  by (simp add: version_handshake_def handshake_frames)

lemma STATE_MAP_legal_set:
  "STATE_MAP Listening = Inr l \<Longrightarrow> set l = legal_set Listening"
  "STATE_MAP Authentication = Inr l \<Longrightarrow> set l = legal_set Authentication"
  "STATE_MAP Command = Inr l \<Longrightarrow> set l = legal_set Command"
  by (auto simp: STATE_MAP_def legal_set_def)

lemma run_request_gate:
  assumes "state (object srv a) = Authentication \<or> state (object srv a) = Command"
  shows "run_request srv a req
           = (if cmd req \<in> legal_set (state (object srv a)) then dispatch srv a req
              else (srv, [], None))"
  using assms by (auto simp: run_request_def STATE_MAP_def legal_set_def)

lemma cmds_differ:
  "AUTH \<noteq> LIST" "AUTH \<noteq> SEARCH" "AUTH \<noteq> ADD" "AUTH \<noteq> DEL" "AUTH \<noteq> QUIT" "AUTH \<noteq> CONV"
  "LIST \<noteq> SEARCH" "LIST \<noteq> ADD" "LIST \<noteq> DEL" "LIST \<noteq> QUIT" "LIST \<noteq> CONV"
  "SEARCH \<noteq> ADD" "SEARCH \<noteq> DEL" "SEARCH \<noteq> QUIT" "SEARCH \<noteq> CONV"
  "ADD \<noteq> DEL" "ADD \<noteq> QUIT" "ADD \<noteq> CONV" "DEL \<noteq> QUIT" "DEL \<noteq> CONV" "QUIT \<noteq> CONV"
  by (simp_all add: AUTH_def ADD_def DEL_def LIST_def SEARCH_def CONV_def QUIT_def lit_def)

lemma fst_dispatch: "fst (dispatch srv a req) = fst (handlers srv a (cmd req) (arg1 req) (arg2 req))"
  by (simp add: dispatch_def split: prod.splits sum.splits)

lemma dispatch_reaches_callback:
  "(cmd req = AUTH \<longrightarrow>
      fst (dispatch srv a req) = fst (WispServer_handle_auth srv a (arg1 req) (arg2 req))) \<and>
   (cmd req = QUIT \<longrightarrow> dispatch srv a req = (srv, [], Some (SystemExit 0))) \<and>
   (cmd req = ADD \<longrightarrow>
      fst (dispatch srv a req)
        = srv\<lparr>DATASTORE :=
                fst (Server_handle_add (DATASTORE srv) (user (object srv a)) (arg1 req))\<rparr>) \<and>
   (cmd req = DEL \<longrightarrow>
      fst (dispatch srv a req)
        = srv\<lparr>DATASTORE :=
                fst (Server_handle_del (DATASTORE srv) (user (object srv a)) (arg1 req))\<rparr>) \<and>
   (cmd req = LIST \<or> cmd req = SEARCH \<longrightarrow> fst (dispatch srv a req) = srv) \<and>
   (cmd req = CONV \<longrightarrow>
      fst (dispatch srv a req) = fst (WispServer_handle_conv srv a (arg1 req) (arg2 req)))"
proof -
  have q: "cmd req = QUIT \<longrightarrow> dispatch srv a req = (srv, [], Some (SystemExit 0))"
    using cmds_differ by (auto simp: dispatch_def handlers_def WispServer_handle_quit_def)
  show ?thesis
    using q cmds_differ
    by (auto simp: fst_dispatch handlers_def split: prod.splits)
qed

text \<open>
  Claim C1, as the code has it.  In the authentication and the command phase, where
  the loop of \<open>run\<close> reads requests, a decoded request is handed to its handler if and
  only if its command is in the legal set of the phase, \<open>{AUTH}\<close> and
  \<open>{ADD, DEL, LIST, SEARCH, CONV, QUIT}\<close>; a request that is handed over reaches the
  callback of its own command and is followed by a response or by the end of the
  thread.  A request with a recognised command outside
  the legal set is skipped: nothing is sent, nothing changes and the session keeps
  running in the same phase.  A frame whose command code is not recognised ends the
  thread with nothing sent and nothing changed but the thread's liveness.  While
  listening, the handshake accepts a request if and only if it is \<open>VERSION\<close> with the
  supported version: it then sends \<open>OK\<close> without data and the phase becomes
  \<open>Authentication\<close>.  A recognised command other than \<open>VERSION\<close> and an unsupported
  version are each answered with one \<open>ERROR\<close> response, a code that is not recognised
  with none, and the handshake raises with the phase left at \<open>Listening\<close>.
\<close>

theorem command_gating:
  assumes "state (object srv a) = Authentication \<or> state (object srv a) = Command"
  shows "(cmd req \<in> legal_set (state (object srv a)) \<longrightarrow>
            run_request srv a req = dispatch srv a req \<and>
            (fst (snd (run_request srv a req)) \<noteq> [] \<or> snd (snd (run_request srv a req)) \<noteq> None)) \<and>
         (cmd req \<in> legal_set (state (object srv a)) \<longrightarrow>
            (cmd req = AUTH \<longrightarrow>
               fst (run_request srv a req)
                 = fst (WispServer_handle_auth srv a (arg1 req) (arg2 req))) \<and>
            (cmd req = QUIT \<longrightarrow> run_request srv a req = (srv, [], Some (SystemExit 0))) \<and>
            (cmd req = ADD \<longrightarrow>
               fst (run_request srv a req)
                 = srv\<lparr>DATASTORE :=
                     fst (Server_handle_add (DATASTORE srv) (user (object srv a)) (arg1 req))\<rparr>) \<and>
            (cmd req = DEL \<longrightarrow>
               fst (run_request srv a req)
                 = srv\<lparr>DATASTORE :=
                     fst (Server_handle_del (DATASTORE srv) (user (object srv a)) (arg1 req))\<rparr>) \<and>
            (cmd req = LIST \<or> cmd req = SEARCH \<longrightarrow> fst (run_request srv a req) = srv) \<and>
            (cmd req = CONV \<longrightarrow>
               fst (run_request srv a req)
                 = fst (WispServer_handle_conv srv a (arg1 req) (arg2 req)))) \<and>
         (cmd req \<notin> legal_set (state (object srv a)) \<longrightarrow>
            run_request srv a req = (srv, [], None)) \<and>
         (WispServer_parse_request sock = (Inr req, sock') \<and>
          cmd req \<in> legal_set (state (object srv a)) \<longrightarrow>
            fst (run srv a sock readable now) \<noteq> Running \<or>
            fst (snd (snd (run srv a sock readable now))) \<noteq> []) \<and>
         (WispServer_parse_request sock = (Inr req, sock') \<and>
          cmd req \<notin> legal_set (state (object srv a)) \<longrightarrow>
            run srv a sock readable now = (Running, srv, [], sock')) \<and>
         (length pkt = 36 \<and> decode (take 4 pkt) = Inr c \<and> \<not> valid c \<longrightarrow>
            run srv a (pkt # rest) readable now
              = (Exited 0, set_object srv a ((object srv a)\<lparr>is_alive := False\<rparr>), [], rest)) \<and>
         (WispServer_parse_request sock = (Inr req, sock') \<longrightarrow>
            version_handshake self sock
              = (if cmd req \<in> legal_set Listening \<and> arg1 req = lit ''1.1''
                 then (self\<lparr>state := Authentication\<rparr>, [frame_versions, frame_ok], None)
                 else if cmd req \<in> legal_set Listening
                 then (self, [frame_versions, frame_unsupported], Some (SystemExit 1))
                 else (self, [frame_versions, frame_invalid_version], Some (SystemExit 1)),
                 sock')) \<and>
         (length pkt = 36 \<and> decode (take 4 pkt) = Inr c \<and> \<not> valid c \<longrightarrow>
            version_handshake self (pkt # rest)
              = ((self, [frame_versions], Some (SystemExit 0)), rest))"
proof -
  have nc: "state (object srv a) \<noteq> Conversation" using assms by auto
  note g = run_request_gate[OF assms, of req]
  have 1: "cmd req \<in> legal_set (state (object srv a)) \<longrightarrow>
            run_request srv a req = dispatch srv a req \<and>
            (fst (snd (run_request srv a req)) \<noteq> [] \<or> snd (snd (run_request srv a req)) \<noteq> None)"
    using g dispatch_observable[of srv a req] by simp
  have 2: "cmd req \<notin> legal_set (state (object srv a)) \<longrightarrow>
            run_request srv a req = (srv, [], None)"
    using g by simp
  have 8: "cmd req \<in> legal_set (state (object srv a)) \<longrightarrow>
            (cmd req = AUTH \<longrightarrow>
               fst (run_request srv a req)
                 = fst (WispServer_handle_auth srv a (arg1 req) (arg2 req))) \<and>
            (cmd req = QUIT \<longrightarrow> run_request srv a req = (srv, [], Some (SystemExit 0))) \<and>
            (cmd req = ADD \<longrightarrow>
               fst (run_request srv a req)
                 = srv\<lparr>DATASTORE :=
                     fst (Server_handle_add (DATASTORE srv) (user (object srv a)) (arg1 req))\<rparr>) \<and>
            (cmd req = DEL \<longrightarrow>
               fst (run_request srv a req)
                 = srv\<lparr>DATASTORE :=
                     fst (Server_handle_del (DATASTORE srv) (user (object srv a)) (arg1 req))\<rparr>) \<and>
            (cmd req = LIST \<or> cmd req = SEARCH \<longrightarrow> fst (run_request srv a req) = srv) \<and>
            (cmd req = CONV \<longrightarrow>
               fst (run_request srv a req)
                 = fst (WispServer_handle_conv srv a (arg1 req) (arg2 req)))"
  proof
    assume "cmd req \<in> legal_set (state (object srv a))"
    then have e: "run_request srv a req = dispatch srv a req" using g by simp
    show "(cmd req = AUTH \<longrightarrow>
               fst (run_request srv a req)
                 = fst (WispServer_handle_auth srv a (arg1 req) (arg2 req))) \<and>
            (cmd req = QUIT \<longrightarrow> run_request srv a req = (srv, [], Some (SystemExit 0))) \<and>
            (cmd req = ADD \<longrightarrow>
               fst (run_request srv a req)
                 = srv\<lparr>DATASTORE :=
                     fst (Server_handle_add (DATASTORE srv) (user (object srv a)) (arg1 req))\<rparr>) \<and>
            (cmd req = DEL \<longrightarrow>
               fst (run_request srv a req)
                 = srv\<lparr>DATASTORE :=
                     fst (Server_handle_del (DATASTORE srv) (user (object srv a)) (arg1 req))\<rparr>) \<and>
            (cmd req = LIST \<or> cmd req = SEARCH \<longrightarrow> fst (run_request srv a req) = srv) \<and>
            (cmd req = CONV \<longrightarrow>
               fst (run_request srv a req)
                 = fst (WispServer_handle_conv srv a (arg1 req) (arg2 req)))"
      unfolding e by (rule dispatch_reaches_callback)
  qed
  have 3: "WispServer_parse_request sock = (Inr req, sock') \<and>
          cmd req \<in> legal_set (state (object srv a)) \<longrightarrow>
            fst (run srv a sock readable now) \<noteq> Running \<or>
            fst (snd (snd (run srv a sock readable now))) \<noteq> []"
  proof
    assume h: "WispServer_parse_request sock = (Inr req, sock') \<and>
          cmd req \<in> legal_set (state (object srv a))"
    obtain srv' sent r where e: "run_request srv a req = (srv', sent, r)"
      by (cases "run_request srv a req") auto
    with 1 h have "sent \<noteq> [] \<or> r \<noteq> None" by simp
    then show "fst (run srv a sock readable now) \<noteq> Running \<or>
            fst (snd (snd (run srv a sock readable now))) \<noteq> []"
      using nc h e by (cases r) (auto simp: run_def run_body_def)
  qed
  have 4: "WispServer_parse_request sock = (Inr req, sock') \<and>
          cmd req \<notin> legal_set (state (object srv a)) \<longrightarrow>
            run srv a sock readable now = (Running, srv, [], sock')"
    using nc 2 by (simp add: run_def run_body_def)
  have 5: "length pkt = 36 \<and> decode (take 4 pkt) = Inr c \<and> \<not> valid c \<longrightarrow>
            run srv a (pkt # rest) readable now
              = (Exited 0, set_object srv a ((object srv a)\<lparr>is_alive := False\<rparr>), [], rest)"
    using nc unrecognised_command[of pkt c rest]
    by (auto simp: run_def run_body_def exit_code_def)
  have 6: "WispServer_parse_request sock = (Inr req, sock') \<longrightarrow>
            version_handshake self sock
              = (if cmd req \<in> legal_set Listening \<and> arg1 req = lit ''1.1''
                 then (self\<lparr>state := Authentication\<rparr>, [frame_versions, frame_ok], None)
                 else if cmd req \<in> legal_set Listening
                 then (self, [frame_versions, frame_unsupported], Some (SystemExit 1))
                 else (self, [frame_versions, frame_invalid_version], Some (SystemExit 1)),
                 sock')"
    using handshake_outcome[of sock req sock' self] by (simp add: legal_set_def)
  have 7: "length pkt = 36 \<and> decode (take 4 pkt) = Inr c \<and> \<not> valid c \<longrightarrow>
            version_handshake self (pkt # rest)
              = ((self, [frame_versions], Some (SystemExit 0)), rest)"
    using handshake_unrecognised[of pkt c self rest] by simp
  show ?thesis using 1 2 3 4 5 6 7 8 by blast
qed

lemma parse_frame_auth:
  "WispServer_parse_request [frame_auth]
     = (Inr \<lparr>cmd = AUTH, arg1 = lit ''kenny'', arg2 = lit ''li''\<rparr>, [])"
  by (simp add: WispServer_parse_request_def WispServer_recv_def frame_auth_def blit_def
      push_def valid_def AUTH_def VERSION_def lit_def)

lemma cmd_distinct:
  "AUTH \<notin> set [ADD, DEL, LIST, SEARCH, CONV, QUIT]"
  "LIST \<in> set [ADD, DEL, LIST, SEARCH, CONV, QUIT]"
  "\<not> valid (lit ''HELO'')"
  by (simp_all add: valid_def VERSION_def AUTH_def ADD_def DEL_def LIST_def SEARCH_def CONV_def
      QUIT_def lit_def)

lemma example_3: "STATE_MAP (state (object example_server 3)) = Inr [ADD, DEL, LIST, SEARCH, CONV, QUIT]"
  by (simp add: example_server_def session_of_def STATE_MAP_def)

lemma frame_unknown_cmd: "length frame_unknown = 36" "decode (take 4 frame_unknown) = Inr (lit ''HELO'')"
  by (simp_all add: frame_unknown_def blit_def lit_def push_def)

lemma example_3_Command: "state (object example_server 3) = Command"
  by (simp add: example_server_def session_of_def)

lemma legal_examples:
  "LIST \<in> legal_set Command" "AUTH \<notin> legal_set Command" "AUTH \<notin> legal_set Listening"
  "QUIT \<in> legal_set Command"
  by (simp_all add: legal_set_def VERSION_def AUTH_def ADD_def DEL_def LIST_def SEARCH_def
      CONV_def QUIT_def lit_def)

theorem command_gating_witness:
  "(state (object example_server 3) = Authentication \<or>
    state (object example_server 3) = Command) \<and>
   LIST \<in> legal_set (state (object example_server 3)) \<and>
   run_request example_server 3 \<lparr>cmd = LIST, arg1 = [], arg2 = []\<rparr>
     = dispatch example_server 3 \<lparr>cmd = LIST, arg1 = [], arg2 = []\<rparr> \<and>
   QUIT \<in> legal_set (state (object example_server 3)) \<and>
   run_request example_server 3 \<lparr>cmd = QUIT, arg1 = [], arg2 = []\<rparr>
     = (example_server, [], Some (SystemExit 0)) \<and>
   AUTH \<notin> legal_set (state (object example_server 3)) \<and>
   WispServer_parse_request [frame_auth]
     = (Inr \<lparr>cmd = AUTH, arg1 = lit ''kenny'', arg2 = lit ''li''\<rparr>, []) \<and>
   run example_server 3 [frame_auth] False 0 = (Running, example_server, [], []) \<and>
   length frame_unknown = 36 \<and> decode (take 4 frame_unknown) = Inr (lit ''HELO'') \<and>
   \<not> valid (lit ''HELO'') \<and>
   run example_server 3 [frame_unknown] False 0
     = (Exited 0, set_object example_server 3 ((object example_server 3)\<lparr>is_alive := False\<rparr>),
        [], []) \<and>
   version_handshake new_session [frame_auth]
     = ((new_session, [frame_versions, frame_invalid_version], Some (SystemExit 1)), []) \<and>
   version_handshake new_session [frame_unknown]
     = ((new_session, [frame_versions], Some (SystemExit 0)), [])"
proof -
  have s: "state (object example_server 3) = Authentication \<or>
           state (object example_server 3) = Command"
    using example_3_Command by simp
  have in_l: "LIST \<in> legal_set (state (object example_server 3))"
    and in_q: "QUIT \<in> legal_set (state (object example_server 3))"
    and out_a: "AUTH \<notin> legal_set (state (object example_server 3))"
    using example_3_Command legal_examples by simp_all
  note L = command_gating [OF s, of "\<lparr>cmd = LIST, arg1 = [], arg2 = []\<rparr>"]
  note Q = command_gating [OF s, of "\<lparr>cmd = QUIT, arg1 = [], arg2 = []\<rparr>"]
  note G = command_gating [OF s, of "\<lparr>cmd = AUTH, arg1 = lit ''kenny'', arg2 = lit ''li''\<rparr>"
        "[frame_auth]" "[]" False 0 frame_unknown "lit ''HELO''" "[]" new_session]
  have 1: "run_request example_server 3 \<lparr>cmd = LIST, arg1 = [], arg2 = []\<rparr>
     = dispatch example_server 3 \<lparr>cmd = LIST, arg1 = [], arg2 = []\<rparr>"
    using L [THEN conjunct1] in_l by simp
  have 2: "run_request example_server 3 \<lparr>cmd = QUIT, arg1 = [], arg2 = []\<rparr>
     = (example_server, [], Some (SystemExit 0))"
    using Q [THEN conjunct2, THEN conjunct1] in_q by simp
  have 3: "run example_server 3 [frame_auth] False 0 = (Running, example_server, [], [])"
    using G [THEN conjunct2, THEN conjunct2, THEN conjunct2, THEN conjunct2, THEN conjunct1]
      out_a parse_frame_auth by simp
  have 4: "run example_server 3 [frame_unknown] False 0
     = (Exited 0, set_object example_server 3 ((object example_server 3)\<lparr>is_alive := False\<rparr>),
        [], [])"
    using G [THEN conjunct2, THEN conjunct2, THEN conjunct2, THEN conjunct2, THEN conjunct2,
        THEN conjunct1] frame_unknown_cmd cmd_distinct(3) by simp
  have 5: "version_handshake new_session [frame_auth]
     = ((new_session, [frame_versions, frame_invalid_version], Some (SystemExit 1)), [])"
    using G [THEN conjunct2, THEN conjunct2, THEN conjunct2, THEN conjunct2, THEN conjunct2,
        THEN conjunct2, THEN conjunct1] parse_frame_auth legal_examples(3) by simp
  have 6: "version_handshake new_session [frame_unknown]
     = ((new_session, [frame_versions], Some (SystemExit 0)), [])"
    using G [THEN conjunct2, THEN conjunct2, THEN conjunct2, THEN conjunct2, THEN conjunct2,
        THEN conjunct2, THEN conjunct2] frame_unknown_cmd cmd_distinct(3) by simp
  show ?thesis
    using s in_l in_q out_a 1 2 3 4 5 6 parse_frame_auth frame_unknown_cmd cmd_distinct(3)
    by blast
qed

theorem command_gating_counterexample:
  "state (object example_server 3) = Command \<and>
   is_alive (object example_server 3) \<and>
   WispServer_parse_request [frame_auth]
     = (Inr \<lparr>cmd = AUTH, arg1 = lit ''kenny'', arg2 = lit ''li''\<rparr>, []) \<and>
   AUTH \<notin> set [ADD, DEL, LIST, SEARCH, CONV, QUIT] \<and>
   run example_server 3 [frame_auth] False 0 = (Running, example_server, [], [])"
proof -
  have s: "state (object example_server 3) = Command" "is_alive (object example_server 3)"
    by (simp_all add: example_server_def session_of_def)
  have r: "run example_server 3 [frame_auth] False 0 = (Running, example_server, [], [])"
    using s example_3 cmd_distinct(1) parse_frame_auth
    by (simp add: run_def run_body_def run_request_def)
  show ?thesis using s r parse_frame_auth cmd_distinct(1) by blast
qed

end
